theory Spec2Isabelle
  imports Main
begin

section \<open>Values and exceptions\<close>

text \<open>
  The scraper handles what \<^verbatim>\<open>json.load\<close> and \<^verbatim>\<open>r.json()\<close> return: \<^verbatim>\<open>None\<close>, booleans,
  integers, strings, lists and dictionaries with string keys. A dictionary is an association
  list in insertion order whose first entry for a key is the one \<^verbatim>\<open>get\<close> finds. Numbers with a
  fraction or an exponent (Python floats) are outside this development.
\<close>

datatype json =
    JNull
  | JBool bool
  | JInt int
  | JStr string
  | JArr "json list"
  | JObj "(string \<times> json) list"

text \<open>
  The exceptions that occur. \<open>ConnectionError\<close>, \<open>RetryError\<close> and \<open>InvalidHeader\<close> are raised inside
  \<^verbatim>\<open>session.get\<close>; \<open>HTTPError\<close> by \<^verbatim>\<open>raise_for_status\<close>; \<open>ValueError\<close> by \<^verbatim>\<open>int\<close> and by \<^verbatim>\<open>r.json()\<close> on a
  body that is not JSON; \<open>UnicodeEncodeError\<close> by \<^verbatim>\<open>f.write\<close> on text that UTF-8 cannot encode;
  \<open>RecursionError\<close> by a call the interpreter has no stack frame left for; \<open>OverflowError\<close> is
  one the progress bar can raise. The \<^verbatim>\<open>except Exception\<close> of the item loop catches every one
  of them.
\<close>

datatype exn =
    AttributeError
  | TypeError
  | ValueError
  | HTTPError
  | ConnectionError
  | RetryError
  | InvalidHeader
  | UnicodeEncodeError
  | RecursionError
  | OverflowError

definition ebind :: "exn + 'a \<Rightarrow> ('a \<Rightarrow> exn + 'b) \<Rightarrow> exn + 'b" where
  "ebind m f = (case m of Inl e \<Rightarrow> Inl e | Inr x \<Rightarrow> f x)"

section \<open>The Python operations the source applies to these values\<close>

text \<open>\<^verbatim>\<open>d.get(k, dflt)\<close>: only a dictionary has the method.\<close>

definition py_get :: "json \<Rightarrow> string \<Rightarrow> json \<Rightarrow> exn + json" where
  "py_get d k dflt =
     (case d of
        JObj kvs \<Rightarrow> Inr (case map_of kvs k of None \<Rightarrow> dflt | Some v \<Rightarrow> v)
      | _ \<Rightarrow> Inl AttributeError)"

text \<open>Truth value of an object, as \<^verbatim>\<open>not x\<close> and \<^verbatim>\<open>x or y\<close> test it.\<close>

fun py_truthy :: "json \<Rightarrow> bool" where
  "py_truthy JNull = False"
| "py_truthy (JBool b) = b"
| "py_truthy (JInt n) = (n \<noteq> 0)"
| "py_truthy (JStr s) = (s \<noteq> [])"
| "py_truthy (JArr xs) = (xs \<noteq> [])"
| "py_truthy (JObj kvs) = (kvs \<noteq> [])"

definition py_or :: "json \<Rightarrow> json \<Rightarrow> json" where
  "py_or x y = (if py_truthy x then x else y)"

text \<open>
  \<^verbatim>\<open>for x in v\<close>: a list yields its elements, a string its characters, a dictionary its keys;
  nothing else is iterable. \<^verbatim>\<open>len(v)\<close> of these three is the length of what is yielded.
\<close>

fun py_iter :: "json \<Rightarrow> exn + json list" where
  "py_iter (JArr xs) = Inr xs"
| "py_iter (JStr s) = Inr (map (\<lambda>c. JStr [c]) s)"
| "py_iter (JObj kvs) = Inr (map (\<lambda>kv. JStr (fst kv)) kvs)"
| "py_iter _ = Inl TypeError"

text \<open>\<^verbatim>\<open>a + n\<close> for an integer \<open>n\<close>: \<^verbatim>\<open>bool\<close> is a subclass of \<^verbatim>\<open>int\<close>; every other left operand
  raises.\<close>

fun py_add_int :: "json \<Rightarrow> int \<Rightarrow> exn + json" where
  "py_add_int (JInt a) n = Inr (JInt (a + n))"
| "py_add_int (JBool b) n = Inr (JInt ((if b then 1 else 0) + n))"
| "py_add_int _ n = Inl TypeError"

text \<open>\<^verbatim>\<open>a >= b\<close> for an integer \<open>a\<close>.\<close>

fun py_int_ge :: "int \<Rightarrow> json \<Rightarrow> exn + bool" where
  "py_int_ge a (JInt b) = Inr (a \<ge> b)"
| "py_int_ge a (JBool b) = Inr (a \<ge> (if b then 1 else 0))"
| "py_int_ge a _ = Inl TypeError"

text \<open>
  Sets. Lists and dictionaries are unhashable. Python's equality identifies \<^verbatim>\<open>True\<close> with
  \<^verbatim>\<open>1\<close> and \<^verbatim>\<open>False\<close> with \<^verbatim>\<open>0\<close>, so membership compares the values \<open>py_key\<close> gives. A set is
  kept as the list of its elements in the order they were added, which is also the order
  chosen here for \<^verbatim>\<open>list(seen)\<close>.
\<close>

fun hashable :: "json \<Rightarrow> bool" where
  "hashable (JArr xs) = False"
| "hashable (JObj kvs) = False"
| "hashable _ = True"

fun py_key :: "json \<Rightarrow> json" where
  "py_key (JBool b) = JInt (if b then 1 else 0)"
| "py_key v = v"

definition py_in :: "json \<Rightarrow> json list \<Rightarrow> exn + bool" where
  "py_in k seen = (if hashable k then Inr (py_key k \<in> set (map py_key seen)) else Inl TypeError)"

definition py_set_add :: "json list \<Rightarrow> json \<Rightarrow> json list" where
  "py_set_add seen k = (if py_key k \<in> set (map py_key seen) then seen else seen @ [k])"

fun py_set_of :: "json list \<Rightarrow> json list \<Rightarrow> exn + json list" where
  "py_set_of acc [] = Inr acc"
| "py_set_of acc (x # xs) = (if hashable x then py_set_of (py_set_add acc x) xs else Inl TypeError)"

text \<open>\<^verbatim>\<open>d[k] = v\<close> on a dictionary: an existing key keeps its place, a new one goes last.\<close>

fun py_setitem :: "(string \<times> json) list \<Rightarrow> string \<Rightarrow> json \<Rightarrow> (string \<times> json) list" where
  "py_setitem [] k v = [(k, v)]"
| "py_setitem (p # ps) k v = (if fst p = k then (k, v) # ps else p # py_setitem ps k v)"

subsection \<open>Text\<close>

definition NL :: string where
  "NL = [CHR 0x0A]"

function dec_nat :: "nat \<Rightarrow> string" where
  "dec_nat n = (if n < 10 then [char_of (48 + n)] else dec_nat (n div 10) @ [char_of (48 + n mod 10)])"
  by pat_completeness auto
termination
  by (relation "measure id") auto

definition dec_int :: "int \<Rightarrow> string" where
  "dec_int i = (if i < 0 then CHR ''-'' # dec_nat (nat (- i)) else dec_nat (nat i))"

text \<open>
  \<^verbatim>\<open>str(v)\<close>, which an f-string applies to each value it embeds. The text Python prints for a
  list or a dictionary (\<^verbatim>\<open>repr\<close> of every element) is taken as the parameter \<open>repr\<close>.
\<close>

fun py_str :: "(json \<Rightarrow> string) \<Rightarrow> json \<Rightarrow> string" where
  "py_str repr JNull = ''None''"
| "py_str repr (JBool b) = (if b then ''True'' else ''False'')"
| "py_str repr (JInt i) = dec_int i"
| "py_str repr (JStr s) = s"
| "py_str repr v = repr v"

fun py_join :: "string \<Rightarrow> string list \<Rightarrow> string" where
  "py_join sep [] = []"
| "py_join sep [x] = x"
| "py_join sep (x # y # ys) = x @ sep @ py_join sep (y # ys)"

section \<open>transform\_issue\_for\_llm\<close>

text \<open>The loop over \<^verbatim>\<open>comments_data\<close>, building \<^verbatim>\<open>comments_texts\<close>.\<close>

fun comment_texts :: "(json \<Rightarrow> string) \<Rightarrow> json list \<Rightarrow> exn + string list" where
  "comment_texts repr [] = Inr []"
| "comment_texts repr (c # cs) =
     ebind (py_get c ''author'' (JObj [])) (\<lambda>a.
     ebind (py_get a ''displayName'' (JStr [])) (\<lambda>author.
     ebind (py_get c ''body'' (JStr [])) (\<lambda>body.
     ebind (py_get c ''created'' (JStr [])) (\<lambda>created.
     ebind (comment_texts repr cs) (\<lambda>rest.
       Inr ((py_str repr author @ '' ('' @ py_str repr created @ ''): '' @ py_str repr body) # rest))))))"

definition transform_issue_for_llm :: "(json \<Rightarrow> string) \<Rightarrow> json \<Rightarrow> exn + json" where
  "transform_issue_for_llm repr issue_raw =
     ebind (py_get issue_raw ''fields'' (JObj [])) (\<lambda>fields.
     ebind (py_get fields ''comment'' (JObj [])) (\<lambda>comment.
     ebind (py_get comment ''comments'' (JArr [])) (\<lambda>comments_data.
     ebind (py_iter comments_data) (\<lambda>cs.
     ebind (comment_texts repr cs) (\<lambda>comments_texts.
     ebind (py_get fields ''description'' JNull) (\<lambda>d.
     ebind (py_get fields ''summary'' JNull) (\<lambda>s.
     let description = py_or d (JStr []); title = py_or s (JStr []) in
     ebind (py_get issue_raw ''key'' JNull) (\<lambda>issue_key.
     ebind (py_get fields ''project'' (JObj [])) (\<lambda>pr.
     ebind (py_get pr ''key'' JNull) (\<lambda>project.
     ebind (py_get fields ''issuetype'' (JObj [])) (\<lambda>it.
     ebind (py_get it ''name'' JNull) (\<lambda>issuetype.
     ebind (py_get fields ''status'' (JObj [])) (\<lambda>st.
     ebind (py_get st ''name'' JNull) (\<lambda>status.
     ebind (py_get fields ''priority'' JNull) (\<lambda>p.
     ebind (py_get (py_or p (JObj [])) ''name'' JNull) (\<lambda>priority.
     ebind (py_get fields ''reporter'' JNull) (\<lambda>r.
     ebind (py_get (py_or r (JObj [])) ''displayName'' JNull) (\<lambda>reporter.
     ebind (py_get fields ''assignee'' JNull) (\<lambda>a.
     ebind (py_get (py_or a (JObj [])) ''displayName'' JNull) (\<lambda>assignee.
     ebind (py_get fields ''labels'' (JArr [])) (\<lambda>labels.
     ebind (py_get fields ''created'' JNull) (\<lambda>created.
     ebind (py_get fields ''updated'' JNull) (\<lambda>updated.
     ebind (py_get issue_raw ''id'' JNull) (\<lambda>raw_issue_id.
     let metadata = JObj
           [(''issue_key'', issue_key), (''project'', project), (''issuetype'', issuetype),
            (''status'', status), (''priority'', priority), (''reporter'', reporter),
            (''assignee'', assignee), (''labels'', labels), (''created'', created),
            (''updated'', updated)];
         joined = py_join NL comments_texts;
         summarization_prompt = JObj
           [(''task'', JStr ''summarization''),
            (''input'', JStr (''Title: '' @ py_str repr title @ NL @ NL @ ''Description:'' @ NL
                              @ py_str repr description @ NL @ NL @ ''Comments:'' @ NL @ joined)),
            (''output'', JStr [])];
         qna_prompt = JObj
           [(''task'', JStr ''qa''),
            (''context'', JStr (py_str repr title @ NL @ NL @ py_str repr description @ NL @ NL
                                @ joined)),
            (''qa_pairs'', JArr [])]
     in Inr (JObj
           [(''metadata'', metadata), (''title'', title), (''description'', description),
            (''comments'', JArr (map JStr comments_texts)),
            (''derived'', JObj [(''summarization'', summarization_prompt), (''qna'', qna_prompt)]),
            (''raw_issue_id'', raw_issue_id)])))))))))))))))))))))))))"

section \<open>The libraries, the remote API and the files\<close>

text \<open>
  What the calls into \<^verbatim>\<open>json\<close>, \<^verbatim>\<open>urllib3\<close> and \<^verbatim>\<open>tqdm\<close> do is not decided by the repository. The
  parts of it that the source depends on are parameters of the development:

  \<^item> \<open>py_repr\<close>: the text Python prints for a list or a dictionary.

  \<^item> \<open>encodable\<close>: whether the line \<^verbatim>\<open>json.dumps(r, ensure_ascii=False) + "\n"\<close> of a record can be
    encoded as UTF-8. The strings of this development are lists of 8-bit characters; a Python
    string can hold any code point, among them a lone surrogate, which \<^verbatim>\<open>r.json()\<close> accepts
    (the JSON text \<^verbatim>\<open>"\ud800"\<close>), which \<^verbatim>\<open>ensure_ascii=False\<close> leaves as it is and which UTF-8 cannot
    encode: \<^verbatim>\<open>f.write\<close> then raises \<^verbatim>\<open>UnicodeEncodeError\<close>.

  \<^item> \<open>adapter_wait\<close>: the time \<^verbatim>\<open>Retry.sleep\<close> waits before the adapter sends a request again, given
    the number of failed attempts so far and the \<^verbatim>\<open>Retry-After\<close> header of the last answer. It
    raises (\<^verbatim>\<open>InvalidHeader\<close>) on a header that is neither a number of seconds nor a date.

  \<^item> \<open>bar_new\<close>, \<open>bar_update\<close>, \<open>bar_bool\<close> and \<open>bar_close\<close>: \<^verbatim>\<open>tqdm(total=...)\<close>, \<^verbatim>\<open>pbar.update(n)\<close>, the truth
    value of the bar that \<^verbatim>\<open>if pbar\<close> asks for, and \<^verbatim>\<open>pbar.close()\<close>. Each of them can raise; \<open>'b\<close>
    is what the bar remembers.

  The pacing of \<^verbatim>\<open>throttle_sleep\<close> (wall-clock time), logging, failures of the file system and the
  limits of the interpreter on the length of a decimal literal and of \<^verbatim>\<open>time.sleep\<close> on the length
  of a wait are not modelled.
\<close>

record 'b library =
  py_repr :: "json \<Rightarrow> string"
  encodable :: "json \<Rightarrow> bool"
  adapter_wait :: "nat \<Rightarrow> string option \<Rightarrow> exn + int"
  bar_new :: "json \<Rightarrow> exn + 'b"
  bar_update :: "'b \<Rightarrow> json \<Rightarrow> exn + 'b"
  bar_bool :: "'b \<Rightarrow> exn + bool"
  bar_close :: "'b \<Rightarrow> exn option"

text \<open>
  What the server does with one request on the wire: the connection fails, or there is a
  response, of which the program reads the status code, the \<^verbatim>\<open>Retry-After\<close> header and the body
  through \<^verbatim>\<open>r.json()\<close> (\<open>None\<close> when the body is not JSON). The server is any state machine: the
  search endpoint is asked with the \<^verbatim>\<open>startAt\<close> and \<^verbatim>\<open>maxResults\<close> parameters, the issue endpoint
  with the key.
\<close>

datatype http = ConnFail | Response int "string option" "json option"

record 's server =
  srv_search :: "'s \<Rightarrow> json \<Rightarrow> int \<Rightarrow> http \<times> 's"
  srv_issue :: "'s \<Rightarrow> json \<Rightarrow> http \<times> 's"

text \<open>
  What a run does, oldest first: a search or detail request sent to the server, a wait of the
  adapter between two attempts, the \<^verbatim>\<open>time.sleep(wait)\<close> of lines 156 and 189, the
  \<^verbatim>\<open>time.sleep(10)\<close> of line 193, the lines a \<^verbatim>\<open>write_jsonl\<close> put into a log, a \<^verbatim>\<open>save_state\<close>.
\<close>

datatype event =
    ListReq json
  | DetailReq json
  | Backoff int
  | RateLimitSleep int
  | ServerErrorSleep
  | AppendRaw "json list"
  | AppendTransformed "json list"
  | SaveState json

text \<open>
  The world a run acts on: the server's state, the two output files (a list of lines, each
  line the value \<^verbatim>\<open>json.dumps\<close> wrote; \<open>None\<close> while the file does not exist), the state file
  (its parsed content) and the record of what the run did.
\<close>

record 's world =
  remote :: 's
  raw_out :: "json list option"
  transformed_out :: "json list option"
  state_file :: "json option"
  events :: "event list"

definition log :: "event \<Rightarrow> 's world \<Rightarrow> 's world" where
  "log e w = w\<lparr>events := events w @ [e]\<rparr>"

definition read_state :: "json option \<Rightarrow> json" where
  "read_state f =
     (case f of
        Some j \<Rightarrow> j
      | None \<Rightarrow> JObj [(''startAt'', JInt 0), (''seen_issue_keys'', JArr [])])"

definition save_state :: "json \<Rightarrow> 's world \<Rightarrow> 's world" where
  "save_state state w = w\<lparr>state_file := Some state, events := events w @ [SaveState state]\<rparr>"

text \<open>
  \<^verbatim>\<open>for r in records: f.write(json.dumps(r, ensure_ascii=False) + "\n")\<close>. The loop stops at the
  first record whose line cannot be encoded, where \<^verbatim>\<open>f.write\<close> raises; the lines written before
  it stay in the file, which the \<^verbatim>\<open>with\<close> statement closes. The result is the exception, if
  any, and the lines written.
\<close>

fun write_lines :: "(json \<Rightarrow> bool) \<Rightarrow> json list \<Rightarrow> exn option \<times> json list" where
  "write_lines enc [] = (None, [])"
| "write_lines enc (r # rs) =
     (if enc r then (case write_lines enc rs of (e, written) \<Rightarrow> (e, r # written))
      else (Some UnicodeEncodeError, []))"

text \<open>
  \<^verbatim>\<open>write_jsonl\<close>: the file is opened for appending when it exists and created otherwise, so
  it exists afterwards, whatever happens to the records.
\<close>

definition write_jsonl ::
  "(json \<Rightarrow> bool) \<Rightarrow> json list option \<Rightarrow> json list \<Rightarrow> exn option \<times> json list option \<times> json list"
where
  "write_jsonl enc f records =
     (case write_lines enc records of
        (e, written) \<Rightarrow> (e, Some ((case f of None \<Rightarrow> [] | Some ls \<Rightarrow> ls) @ written), written))"

section \<open>The session\<close>

text \<open>
  Lines 45 to 54 mount on the session an adapter with
  \<^verbatim>\<open>Retry(total=5, backoff_factor=1, status_forcelist=[429, 500, 502, 503, 504])\<close>, so that
  \<^verbatim>\<open>session.get\<close> is more than one request. As \<^verbatim>\<open>urllib3\<close> has it: an answer is retried when
  its status is in the force list, or when retries are left, the answer has a non-empty
  \<^verbatim>\<open>Retry-After\<close> header and its status is 413, 429 or 503; a failed connection is retried as well.
  Each retry takes one from \<^verbatim>\<open>total\<close>; when a retry is due and none is left, the call raises
  (\<^verbatim>\<open>RetryError\<close> after a response, \<^verbatim>\<open>ConnectionError\<close> after a failed connection). Before a retry
  the adapter waits. The request sent again is the same one. Redirections are not modelled.
\<close>

definition RETRY_TOTAL :: nat where
  "RETRY_TOTAL = 5"

definition status_forcelist :: "int list" where
  "status_forcelist = [429, 500, 502, 503, 504]"

definition RETRY_AFTER_STATUS_CODES :: "int list" where
  "RETRY_AFTER_STATUS_CODES = [413, 429, 503]"

definition is_retry :: "nat \<Rightarrow> int \<Rightarrow> string option \<Rightarrow> bool" where
  "is_retry left status ra =
     (status \<in> set status_forcelist
      \<or> (left \<noteq> 0 \<and> ra \<noteq> None \<and> ra \<noteq> Some [] \<and> status \<in> set RETRY_AFTER_STATUS_CODES))"

text \<open>
  \<open>session_send left tried\<close>: the request \<open>req\<close> is sent to the endpoint with \<open>left\<close> retries
  left, after \<open>tried\<close> failed attempts.
\<close>

fun session_send ::
  "nat \<Rightarrow> nat \<Rightarrow> 'b library \<Rightarrow> ('s \<Rightarrow> http \<times> 's) \<Rightarrow> event \<Rightarrow> 's world
     \<Rightarrow> (exn + int \<times> string option \<times> json option) \<times> 's world"
where
  "session_send left tried lib ep req w =
     (case ep (remote w) of
        (r, s) \<Rightarrow>
          let w1 = log req (w\<lparr>remote := s\<rparr>) in
          (case r of
             ConnFail \<Rightarrow>
               (case left of
                  0 \<Rightarrow> (Inl ConnectionError, w1)
                | Suc left' \<Rightarrow>
                    (case adapter_wait lib (Suc tried) None of
                       Inl e \<Rightarrow> (Inl e, w1)
                     | Inr t \<Rightarrow> session_send left' (Suc tried) lib ep req (log (Backoff t) w1)))
           | Response status ra body \<Rightarrow>
               if is_retry left status ra then
                 (case left of
                    0 \<Rightarrow> (Inl RetryError, w1)
                  | Suc left' \<Rightarrow>
                      (case adapter_wait lib (Suc tried) ra of
                         Inl e \<Rightarrow> (Inl e, w1)
                       | Inr t \<Rightarrow> session_send left' (Suc tried) lib ep req (log (Backoff t) w1)))
               else (Inr (status, ra, body), w1)))"

definition session_get ::
  "'b library \<Rightarrow> ('s \<Rightarrow> http \<times> 's) \<Rightarrow> event \<Rightarrow> 's world
     \<Rightarrow> (exn + int \<times> string option \<times> json option) \<times> 's world"
where
  "session_get lib ep req w = session_send RETRY_TOTAL 0 lib ep req w"

section \<open>Rate-limit wait\<close>

text \<open>
  \<^verbatim>\<open>wait = int(ra) if ra and ra.isdigit() else 60\<close>. Header values are decoded as Latin-1, so
  a character is one of 256 code points. Among them \<^verbatim>\<open>str.isdigit\<close> holds of \<^verbatim>\<open>0\<close> to \<^verbatim>\<open>9\<close> and of
  the superscripts two, three and one (U+00B2, U+00B3, U+00B9); \<^verbatim>\<open>int\<close> accepts only the
  former and raises \<^verbatim>\<open>ValueError\<close> on the latter.
\<close>

definition ascii_digit :: "char \<Rightarrow> bool" where
  "ascii_digit c = (48 \<le> (of_char c :: nat) \<and> (of_char c :: nat) \<le> 57)"

definition isdigit_char :: "char \<Rightarrow> bool" where
  "isdigit_char c = (ascii_digit c \<or> (of_char c :: nat) \<in> {0xB2, 0xB3, 0xB9})"

definition py_isdigit :: "string \<Rightarrow> bool" where
  "py_isdigit s = (s \<noteq> [] \<and> list_all isdigit_char s)"

definition digits_value :: "string \<Rightarrow> nat" where
  "digits_value s = foldl (\<lambda>a c. 10 * a + (of_char c - 48)) 0 s"

text \<open>\<^verbatim>\<open>int(s)\<close> for a string of which \<^verbatim>\<open>isdigit\<close> holds.\<close>

definition py_int_of_digits :: "string \<Rightarrow> exn + int" where
  "py_int_of_digits s = (if list_all ascii_digit s then Inr (int (digits_value s)) else Inl ValueError)"

definition retry_after_wait :: "string option \<Rightarrow> exn + int" where
  "retry_after_wait ra =
     (case ra of
        None \<Rightarrow> Inr 60
      | Some s \<Rightarrow> if s \<noteq> [] \<and> py_isdigit s then py_int_of_digits s else Inr 60)"

section \<open>fetch\_issue\<close>

text \<open>
  The function calls itself after a 429 (line 157). The first argument is the number of
  activations of \<^verbatim>\<open>fetch_issue\<close> for which the interpreter still has room on its stack: a call
  made when there is none raises \<^verbatim>\<open>RecursionError\<close>. The last component of the result is the
  number of activations of \<^verbatim>\<open>fetch_issue\<close> on the stack when the innermost one returns or
  raises.
\<close>

fun fetch_issue ::
  "nat \<Rightarrow> 'b library \<Rightarrow> ('s \<Rightarrow> json \<Rightarrow> http \<times> 's) \<Rightarrow> json \<Rightarrow> 's world \<Rightarrow> (exn + json) \<times> 's world \<times> nat"
where
  "fetch_issue 0 lib issue_ep issue_key w = (Inl RecursionError, w, 0)"
| "fetch_issue (Suc frames) lib issue_ep issue_key w =
     (case session_get lib (\<lambda>s. issue_ep s issue_key) (DetailReq issue_key) w of
        (Inl e, w1) \<Rightarrow> (Inl e, w1, 1)
      | (Inr (status, ra, body), w1) \<Rightarrow>
          if status = 429 then
            (case retry_after_wait ra of
               Inl e \<Rightarrow> (Inl e, w1, 1)
             | Inr wait \<Rightarrow>
                 (case fetch_issue frames lib issue_ep issue_key (log (RateLimitSleep wait) w1) of
                    (res, w2, d) \<Rightarrow> (res, w2, Suc d)))
          else if 400 \<le> status \<and> status < 600 then (Inl HTTPError, w1, 1)
          else
            (case body of
               None \<Rightarrow> (Inl ValueError, w1, 1)
             | Some j \<Rightarrow> (Inr j, w1, 1)))"

section \<open>scrape\_project\<close>

text \<open>
  The \<^verbatim>\<open>for it in issues\<close> loop. Its variables are \<^verbatim>\<open>seen\<close>, \<^verbatim>\<open>raw_batch\<close>, \<^verbatim>\<open>transformed_batch\<close> and
  the progress bar. An exception of \<^verbatim>\<open>fetch_issue\<close> is caught and the item skipped; one raised
  by \<^verbatim>\<open>it.get\<close>, by \<^verbatim>\<open>key in seen\<close>, by the transform or by \<^verbatim>\<open>pbar.update\<close> leaves the loop and the
  function.
\<close>

fun process_items ::
  "nat \<Rightarrow> 'b library \<Rightarrow> 's server \<Rightarrow> json list \<Rightarrow> json list \<times> json list \<times> json list \<times> 'b \<Rightarrow> 's world
     \<Rightarrow> (exn + json list \<times> json list \<times> json list \<times> 'b) \<times> 's world"
where
  "process_items frames lib srv [] (seen, raw_batch, transformed_batch, pbar) w =
     (Inr (seen, raw_batch, transformed_batch, pbar), w)"
| "process_items frames lib srv (it # its) (seen, raw_batch, transformed_batch, pbar) w =
     (case py_get it ''key'' JNull of
        Inl e \<Rightarrow> (Inl e, w)
      | Inr key \<Rightarrow>
          (case py_in key seen of
             Inl e \<Rightarrow> (Inl e, w)
           | Inr True \<Rightarrow>
               (case bar_update lib pbar (JInt 1) of
                  Inl e \<Rightarrow> (Inl e, w)
                | Inr pbar' \<Rightarrow>
                    process_items frames lib srv its (seen, raw_batch, transformed_batch, pbar') w)
           | Inr False \<Rightarrow>
               (case fetch_issue frames lib (srv_issue srv) key w of
                  (Inl e, w1, d) \<Rightarrow>
                    process_items frames lib srv its (seen, raw_batch, transformed_batch, pbar) w1
                | (Inr issue_full, w1, d) \<Rightarrow>
                    (case transform_issue_for_llm (py_repr lib) issue_full of
                       Inl e \<Rightarrow> (Inl e, w1)
                     | Inr t \<Rightarrow>
                         (case bar_update lib pbar (JInt 1) of
                            Inl e \<Rightarrow> (Inl e, w1)
                          | Inr pbar' \<Rightarrow>
                              process_items frames lib srv its
                                (py_set_add seen key, raw_batch @ [issue_full],
                                 transformed_batch @ [t], pbar')
                                w1)))))"

text \<open>
  \<^verbatim>\<open>if raw_batch: write_jsonl(raw_out, raw_batch); write_jsonl(transformed_out, transformed_batch)\<close>.
  When the first call raises, the second is not made.
\<close>

definition write_batches ::
  "'b library \<Rightarrow> json list \<Rightarrow> json list \<Rightarrow> 's world \<Rightarrow> exn option \<times> 's world"
where
  "write_batches lib raw_batch transformed_batch w =
     (if raw_batch \<noteq> [] then
        (case write_jsonl (encodable lib) (raw_out w) raw_batch of
           (e1, f1, written1) \<Rightarrow>
             let w1 = log (AppendRaw written1) (w\<lparr>raw_out := f1\<rparr>) in
             (case e1 of
                Some e \<Rightarrow> (Some e, w1)
              | None \<Rightarrow>
                  (case write_jsonl (encodable lib) (transformed_out w1) transformed_batch of
                     (e2, f2, written2) \<Rightarrow>
                       (e2, log (AppendTransformed written2) (w1\<lparr>transformed_out := f2\<rparr>)))))
      else (None, w))"

text \<open>
  Lines 199 to 201: \<^verbatim>\<open>if pbar is None: pbar = tqdm(total=total, ...); pbar.update(startAt)\<close>.
\<close>

definition ensure_bar :: "'b library \<Rightarrow> 'b option \<Rightarrow> json \<Rightarrow> json \<Rightarrow> exn + 'b" where
  "ensure_bar lib pbar tot startAt =
     (case pbar of
        None \<Rightarrow> ebind (bar_new lib tot) (\<lambda>b. bar_update lib b startAt)
      | Some b \<Rightarrow> Inr b)"

text \<open>
  One pass through the body of \<^verbatim>\<open>while more_to_fetch\<close>, with the loop's variables \<^verbatim>\<open>startAt\<close>,
  \<^verbatim>\<open>seen\<close>, the dictionary \<^verbatim>\<open>state\<close> and \<^verbatim>\<open>pbar\<close>. The pass ends in \<open>Again\<close> (\<^verbatim>\<open>continue\<close>, or the end
  of the body with \<^verbatim>\<open>more_to_fetch\<close> still true) with the variables for the next pass, in
  \<open>Finished\<close> when the loop is left, with the final values of \<^verbatim>\<open>startAt\<close> and \<^verbatim>\<open>pbar\<close>, or in
  \<open>Raised\<close> with the exception that leaves the function.
\<close>

datatype ('v, 'd) pass = Again 'v | Finished 'd | Raised exn

definition MAX_RESULTS :: int where
  "MAX_RESULTS = 50"

definition page_pass ::
  "nat \<Rightarrow> 'b library \<Rightarrow> 's server \<Rightarrow> json \<times> json list \<times> (string \<times> json) list \<times> 'b option \<Rightarrow> 's world
     \<Rightarrow> (json \<times> json list \<times> (string \<times> json) list \<times> 'b option, json \<times> 'b option) pass \<times> 's world"
where
  "page_pass frames lib srv vars w =
     (case vars of (startAt, seen, state, pbar) \<Rightarrow>
      (case session_get lib (\<lambda>s. srv_search srv s startAt MAX_RESULTS) (ListReq startAt) w of
         (Inl e, w1) \<Rightarrow> (Raised e, w1)
       | (Inr (status, ra, body), w1) \<Rightarrow>
           if status = 429 then
             (case retry_after_wait ra of
                Inl e \<Rightarrow> (Raised e, w1)
              | Inr wait \<Rightarrow> (Again (startAt, seen, state, pbar), log (RateLimitSleep wait) w1))
           else if status \<ge> 500 then (Again (startAt, seen, state, pbar), log ServerErrorSleep w1)
           else if 400 \<le> status then (Raised HTTPError, w1)
           else
             (case body of
                None \<Rightarrow> (Raised ValueError, w1)
              | Some resp \<Rightarrow>
                  (case py_get resp ''issues'' (JArr []) of
                     Inl e \<Rightarrow> (Raised e, w1)
                   | Inr issues \<Rightarrow>
                       (case ebind (py_get resp ''total'' (JInt 0))
                               (\<lambda>tot. ensure_bar lib pbar tot startAt) of
                          Inl e \<Rightarrow> (Raised e, w1)
                        | Inr bar \<Rightarrow>
                            if \<not> py_truthy issues then (Finished (startAt, Some bar), w1)
                            else
                              (case py_iter issues of
                                 Inl e \<Rightarrow> (Raised e, w1)
                               | Inr its \<Rightarrow>
                                   (case process_items frames lib srv its (seen, [], [], bar) w1 of
                                      (Inl e, w2) \<Rightarrow> (Raised e, w2)
                                    | (Inr (seen', raw_batch, transformed_batch, bar'), w2) \<Rightarrow>
                                        (case write_batches lib raw_batch transformed_batch w2 of
                                           (Some e, w3) \<Rightarrow> (Raised e, w3)
                                         | (None, w3) \<Rightarrow>
                                             (case ebind (py_get resp ''startAt'' startAt)
                                                     (\<lambda>a. py_add_int a (int (length its))) of
                                                Inl e \<Rightarrow> (Raised e, w3)
                                              | Inr startAt' \<Rightarrow>
                                                  let state' = py_setitem (py_setitem state ''startAt'' startAt')
                                                                 ''seen_issue_keys'' (JArr seen');
                                                      w4 = save_state (JObj state') w3
                                                  in
                                                  (case ebind (py_get resp ''total'' startAt')
                                                          (\<lambda>t. case startAt' of
                                                                  JInt a \<Rightarrow> py_int_ge a t
                                                                | _ \<Rightarrow> Inl TypeError) of
                                                     Inl e \<Rightarrow> (Raised e, w4)
                                                   | Inr True \<Rightarrow> (Finished (startAt', Some bar'), w4)
                                                   | Inr False \<Rightarrow>
                                                       (Again (startAt', seen', state', Some bar'), w4)))))))))))"

text \<open>
  The loop. The first argument bounds the number of passes the model follows; the result is
  \<open>None\<close> when the bound is reached.
\<close>

fun scrape_loop ::
  "nat \<Rightarrow> nat \<Rightarrow> 'b library \<Rightarrow> 's server \<Rightarrow> json \<times> json list \<times> (string \<times> json) list \<times> 'b option
     \<Rightarrow> 's world \<Rightarrow> (exn + json \<times> 'b option) option \<times> 's world"
where
  "scrape_loop 0 frames lib srv vars w = (None, w)"
| "scrape_loop (Suc n) frames lib srv vars w =
     (case page_pass frames lib srv vars w of
        (Again vars', w') \<Rightarrow> scrape_loop n frames lib srv vars' w'
      | (Finished d, w') \<Rightarrow> (Some (Inr d), w')
      | (Raised e, w') \<Rightarrow> (Some (Inl e), w'))"

text \<open>Lines 237 and 238: \<^verbatim>\<open>if pbar: pbar.close()\<close>.\<close>

definition finish_bar :: "'b library \<Rightarrow> 'b option \<Rightarrow> exn option" where
  "finish_bar lib pbar =
     (case pbar of
        None \<Rightarrow> None
      | Some b \<Rightarrow>
          (case bar_bool lib b of
             Inl e \<Rightarrow> Some e
           | Inr True \<Rightarrow> bar_close lib b
           | Inr False \<Rightarrow> None))"

text \<open>
  \<^verbatim>\<open>scrape_project\<close>: load the state, read \<^verbatim>\<open>startAt\<close> and the set of seen keys from it, run
  the loop, close the bar. The result is the exception that leaves the function or, when it
  returns, the last value of \<^verbatim>\<open>startAt\<close>; it is \<open>None\<close> when the bound on the passes is reached.
\<close>

definition load_state :: "json option \<Rightarrow> exn + json \<times> json list \<times> (string \<times> json) list" where
  "load_state f =
     (case read_state f of
        JObj state \<Rightarrow>
          ebind (py_get (JObj state) ''startAt'' (JInt 0)) (\<lambda>startAt.
          ebind (py_get (JObj state) ''seen_issue_keys'' (JArr [])) (\<lambda>ks.
          ebind (py_iter ks) (\<lambda>xs.
          ebind (py_set_of [] xs) (\<lambda>seen. Inr (startAt, seen, state)))))
      | _ \<Rightarrow> Inl AttributeError)"

definition scrape_project ::
  "nat \<Rightarrow> nat \<Rightarrow> 'b library \<Rightarrow> 's server \<Rightarrow> 's world \<Rightarrow> (exn + json) option \<times> 's world"
where
  "scrape_project fuel frames lib srv w =
     (case load_state (state_file w) of
        Inl e \<Rightarrow> (Some (Inl e), w)
      | Inr (startAt, seen, state) \<Rightarrow>
          (case scrape_loop fuel frames lib srv (startAt, seen, state, None) w of
             (None, w') \<Rightarrow> (None, w')
           | (Some (Inl e), w') \<Rightarrow> (Some (Inl e), w')
           | (Some (Inr (cursor, pbar)), w') \<Rightarrow>
               (case finish_bar lib pbar of
                  Some e \<Rightarrow> (Some (Inl e), w')
                | None \<Rightarrow> (Some (Inr cursor), w'))))"

section \<open>Notions used to state the properties\<close>

subsection \<open>A paged server, libraries in which nothing raises, and two worlds\<close>

text \<open>
  A server that holds a fixed list of issue summaries and serves it in pages of \<open>P\<close>, in the
  shape of the search endpoint's answer; its issue endpoint returns a record with the key
  that was asked for.
\<close>

definition issue_summary :: "string \<Rightarrow> json" where
  "issue_summary k = JObj [(''key'', JStr k)]"

definition three_issues :: "json list" where
  "three_issues = [issue_summary ''A-1'', issue_summary ''A-2'', issue_summary ''A-3'']"

definition search_page :: "json list \<Rightarrow> nat \<Rightarrow> int \<Rightarrow> json" where
  "search_page items P c =
     JObj [(''startAt'', JInt c), (''maxResults'', JInt (int P)), (''total'', JInt (int (length items))),
           (''issues'', JArr (take P (drop (nat c) items)))]"

definition issue_record :: "json \<Rightarrow> json" where
  "issue_record k = JObj [(''key'', k), (''fields'', JObj [(''summary'', JStr ''Title'')])]"

definition paged_server :: "json list \<Rightarrow> nat \<Rightarrow> nat server" where
  "paged_server items P =
     \<lparr>srv_search = (\<lambda>s a m. (case a of
                                JInt c \<Rightarrow> Response 200 None (Some (search_page items P c))
                              | _ \<Rightarrow> Response 400 None None, s)),
      srv_issue = (\<lambda>s k. (Response 200 None (Some (issue_record k)), s))\<rparr>"

text \<open>
  The wait of \<^verbatim>\<open>urllib3\<close> before a retry, with \<^verbatim>\<open>backoff_factor=1\<close>, for a \<^verbatim>\<open>Retry-After\<close> header that
  is absent or a number of seconds written in digits: the number when it is not zero, and
  otherwise nothing after the first failed attempt, then 2, 4, 8 and 16 seconds. Every other
  header is answered with \<^verbatim>\<open>InvalidHeader\<close> here, which is what \<^verbatim>\<open>urllib3\<close> does unless the header
  is a date or has blanks around the digits.
\<close>

definition backoff_time :: "nat \<Rightarrow> int" where
  "backoff_time k = (if k \<le> 1 then 0 else min 120 (2 ^ (k - 1)))"

definition seconds_wait :: "nat \<Rightarrow> string option \<Rightarrow> exn + int" where
  "seconds_wait k ra =
     (case ra of
        None \<Rightarrow> Inr (backoff_time k)
      | Some s \<Rightarrow>
          if s \<noteq> [] \<and> list_all ascii_digit s then
            Inr (if digits_value s = 0 then backoff_time k else int (digits_value s))
          else Inl InvalidHeader)"

text \<open>
  Libraries in which nothing raises but the adapter on a header it cannot read: every line
  can be encoded and the progress bar, which remembers nothing, accepts every call.
\<close>

definition quiet_library :: "unit library" where
  "quiet_library =
     \<lparr>py_repr = (\<lambda>v. []), encodable = (\<lambda>r. True), adapter_wait = seconds_wait,
      bar_new = (\<lambda>t. Inr ()), bar_update = (\<lambda>b n. Inr b), bar_bool = (\<lambda>b. Inr True),
      bar_close = (\<lambda>b. None)\<rparr>"

text \<open>The world before the first run, where no file exists, and the world after a full run.\<close>

definition fresh_world :: "nat world" where
  "fresh_world = \<lparr>remote = 0, raw_out = None, transformed_out = None, state_file = None, events = []\<rparr>"

definition stale_world :: "nat world" where
  "stale_world =
     \<lparr>remote = 0, raw_out = Some [issue_record (JStr ''A-1''), issue_record (JStr ''A-2''), issue_record (JStr ''A-3'')],
      transformed_out = None,
      state_file = Some (JObj [(''startAt'', JInt 3),
                               (''seen_issue_keys'', JArr [JStr ''A-1'', JStr ''A-2'', JStr ''A-3''])]),
      events = []\<rparr>"

subsection \<open>The session and fetch\_issue\<close>

definition the_lines :: "json list option \<Rightarrow> json list" where
  "the_lines f = (case f of None \<Rightarrow> [] | Some ls \<Rightarrow> ls)"

definition keyset :: "json list \<Rightarrow> json set" where
  "keyset seen = set (map py_key seen)"

definition same_files :: "'s world \<Rightarrow> 's world \<Rightarrow> bool" where
  "same_files w w' = (raw_out w' = raw_out w \<and> transformed_out w' = transformed_out w \<and> state_file w' = state_file w)"

text \<open>What \<^verbatim>\<open>session.get\<close> leaves in the record of a run besides the request itself.\<close>

fun is_backoff :: "event \<Rightarrow> bool" where
  "is_backoff (Backoff t) = True"
| "is_backoff _ = False"

definition requests_of :: "event \<Rightarrow> event list \<Rightarrow> nat" where
  "requests_of req es = length (filter (\<lambda>e. e = req) es)"

fun detail_event :: "json set \<Rightarrow> event \<Rightarrow> bool" where
  "detail_event S (DetailReq k) = (py_key k \<notin> S)"
| "detail_event S (Backoff n) = True"
| "detail_event S _ = False"



subsection \<open>One pass of the loop\<close>

fun is_append :: "event \<Rightarrow> bool" where
  "is_append (AppendRaw ls) = True"
| "is_append (AppendTransformed ls) = True"
| "is_append _ = False"

text \<open>What a pass leaves in the record of a run before it writes anything.\<close>

definition pass_event :: "json set \<Rightarrow> json \<Rightarrow> event \<Rightarrow> bool" where
  "pass_event S a e = (e = ListReq a \<or> e = ServerErrorSleep \<or> detail_event S e)"

subsection \<open>The two logs\<close>

definition corresponds :: "'b library \<Rightarrow> json list \<Rightarrow> json list \<Rightarrow> bool" where
  "corresponds lib R T = list_all2 (\<lambda>r t. transform_issue_for_llm (py_repr lib) r = Inr t) R T"

definition appended :: "'b library \<Rightarrow> 's world \<Rightarrow> 's world \<Rightarrow> bool" where
  "appended lib w w' =
     (\<exists>R T. the_lines (raw_out w') = the_lines (raw_out w) @ R
          \<and> the_lines (transformed_out w') = the_lines (transformed_out w) @ T
          \<and> corresponds lib R T)"

definition appended_part :: "'b library \<Rightarrow> 's world \<Rightarrow> 's world \<Rightarrow> bool" where
  "appended_part lib w w' =
     (\<exists>R T. the_lines (raw_out w') = the_lines (raw_out w) @ R
          \<and> the_lines (transformed_out w') = the_lines (transformed_out w) @ T
          \<and> length T \<le> length R \<and> corresponds lib (take (length T) R) T)"

text \<open>
  A library for which the line of the record of \<^verbatim>\<open>A-2\<close> cannot be encoded, as when the server
  has put a lone surrogate into that record.
\<close>

definition surrogate_library :: "unit library" where
  "surrogate_library = quiet_library\<lparr>encodable := (\<lambda>r. r \<noteq> issue_record (JStr ''A-2''))\<rparr>"

subsection \<open>The first request\<close>


fun is_save :: "event \<Rightarrow> bool" where
  "is_save (SaveState st) = True"
| "is_save _ = False"

subsection \<open>Checkpoints\<close>

fun saved_states :: "event list \<Rightarrow> json list" where
  "saved_states [] = []"
| "saved_states (SaveState st # es) = st # saved_states es"
| "saved_states (e # es) = saved_states es"

definition seen_of :: "json \<Rightarrow> json set" where
  "seen_of st =
     (case py_get st ''seen_issue_keys'' (JArr []) of
        Inr v \<Rightarrow> (case py_iter v of Inr xs \<Rightarrow> keyset xs | Inl e \<Rightarrow> {})
      | Inl e \<Rightarrow> {})"

definition cursor_of :: "json \<Rightarrow> json" where
  "cursor_of st = (case py_get st ''startAt'' (JInt 0) of Inr v \<Rightarrow> v | Inl e \<Rightarrow> JNull)"

fun json_int_le :: "json \<Rightarrow> json \<Rightarrow> bool" where
  "json_int_le (JInt x) (JInt y) = (x \<le> y)"
| "json_int_le a b = False"

definition checkpoints :: "'s world \<Rightarrow> 's world \<Rightarrow> json list" where
  "checkpoints w w' = read_state (state_file w) # saved_states (drop (length (events w)) (events w'))"

definition offsets_ok :: "'s server \<Rightarrow> bool" where
  "offsets_ok srv =
     (\<forall>s c status ra resp s' v b.
        srv_search srv s (JInt c) MAX_RESULTS = (Response status ra (Some resp), s') \<longrightarrow>
        py_get resp ''startAt'' (JInt c) = Inr v \<longrightarrow> py_add_int v 0 = Inr (JInt b) \<longrightarrow> c \<le> b)"

definition rewinding_server :: "nat server" where
  "rewinding_server =
     \<lparr>srv_search = (\<lambda>s a m. (Response 200 None
                       (Some (JObj [(''startAt'', JInt 0), (''total'', JInt 1),
                                    (''issues'', JArr [issue_summary ''A-1''])])), s)),
      srv_issue = (\<lambda>s k. (Response 200 None (Some (issue_record k)), s))\<rparr>"

subsection \<open>At most one line for each key\<close>










subsection \<open>The cursor after a page\<close>




subsection \<open>A faithful server\<close>







subsection \<open>The number of search requests\<close>



subsection \<open>Rate limiting\<close>



subsection \<open>save\_state on the disk\<close>

text \<open>
  \<^verbatim>\<open>save_state\<close> at the level of the file. \<^verbatim>\<open>open(path, "w")\<close> truncates the file (or creates it
  empty); \<^verbatim>\<open>json.dump(state, f, indent=2)\<close> then writes the text of the state, which reaches the
  file in pieces as the buffered writer flushes, the last at the end of the \<^verbatim>\<open>with\<close>
  block. The content of the file is a string, \<open>None\<close> while the file does not exist.
\<close>

definition hex_digit :: "nat \<Rightarrow> char" where
  "hex_digit n = (if n < 10 then char_of (48 + n) else char_of (87 + n))"

text \<open>A character inside a JSON string, as \<^verbatim>\<open>json.dump\<close> writes it with \<^verbatim>\<open>ensure_ascii\<close>.\<close>

definition json_escape :: "char \<Rightarrow> string" where
  "json_escape c =
     (let n = (of_char c :: nat) in
      if n = 0x22 then [char_of (0x5C :: nat), char_of (0x22 :: nat)]
      else if n = 0x5C then [char_of (0x5C :: nat), char_of (0x5C :: nat)]
      else if n = 0x0A then [char_of (0x5C :: nat), CHR ''n'']
      else if n = 0x0D then [char_of (0x5C :: nat), CHR ''r'']
      else if n = 0x09 then [char_of (0x5C :: nat), CHR ''t'']
      else if n = 0x08 then [char_of (0x5C :: nat), CHR ''b'']
      else if n = 0x0C then [char_of (0x5C :: nat), CHR ''f'']
      else if n < 0x20 \<or> 0x7E < n
        then [char_of (0x5C :: nat), CHR ''u'', CHR ''0'', CHR ''0'', hex_digit (n div 16), hex_digit (n mod 16)]
      else [c])"

definition json_quote :: "string \<Rightarrow> string" where
  "json_quote s = char_of (0x22 :: nat) # concat (map json_escape s) @ [char_of (0x22 :: nat)]"

definition indent_of :: "nat \<Rightarrow> string" where
  "indent_of level = NL @ replicate (2 * level) CHR '' ''"

fun json_dumps :: "nat \<Rightarrow> json \<Rightarrow> string" where
  "json_dumps level JNull = ''null''"
| "json_dumps level (JBool b) = (if b then ''true'' else ''false'')"
| "json_dumps level (JInt i) = dec_int i"
| "json_dumps level (JStr s) = json_quote s"
| "json_dumps level (JArr xs) =
     (if xs = [] then ''[]''
      else ''['' @ indent_of (Suc level)
           @ py_join ('','' @ indent_of (Suc level)) (map (json_dumps (Suc level)) xs)
           @ indent_of level @ '']'')"
| "json_dumps level (JObj kvs) =
     (if kvs = [] then ''{}''
      else ''{'' @ indent_of (Suc level)
           @ py_join ('','' @ indent_of (Suc level))
               (map (\<lambda>kv. json_quote (fst kv) @ '': '' @ json_dumps (Suc level) (snd kv)) kvs)
           @ indent_of level @ ''}'')"

datatype fs_op = Truncate | Flush string

fun apply_fs_op :: "string option \<Rightarrow> fs_op \<Rightarrow> string option" where
  "apply_fs_op f Truncate = Some []"
| "apply_fs_op f (Flush s) = Some ((case f of None \<Rightarrow> [] | Some t \<Rightarrow> t) @ s)"

text \<open>
  The file operations of one \<^verbatim>\<open>save_state\<close>, for a text that reaches the file in the given
  pieces, and the content of the file if the process stops after the first \<open>k\<close> of them.
\<close>

definition save_state_ops :: "string list \<Rightarrow> fs_op list" where
  "save_state_ops pieces = Truncate # map Flush pieces"

definition disk_after :: "nat \<Rightarrow> fs_op list \<Rightarrow> string option \<Rightarrow> string option" where
  "disk_after k ops f = foldl apply_fs_op f (take k ops)"

definition checkpoint_0 :: json where
  "checkpoint_0 = JObj [(''startAt'', JInt 0), (''seen_issue_keys'', JArr [])]"

definition checkpoint_1 :: json where
  "checkpoint_1 = JObj [(''startAt'', JInt 1), (''seen_issue_keys'', JArr [JStr ''A-1''])]"

subsection \<open>The transform on a null\<close>

text \<open>
  Two raw records: one whose \<^verbatim>\<open>status\<close> is \<^verbatim>\<open>null\<close>, one whose \<^verbatim>\<open>priority\<close> is \<^verbatim>\<open>null\<close>.
\<close>

definition null_status_record :: json where
  "null_status_record = JObj [(''key'', JStr ''A-1''), (''fields'', JObj [(''status'', JNull)])]"

definition null_priority_record :: json where
  "null_priority_record = JObj [(''key'', JStr ''A-1''), (''fields'', JObj [(''priority'', JNull)])]"

definition metadata_of :: "exn + json \<Rightarrow> string \<Rightarrow> exn + json" where
  "metadata_of out k = ebind out (\<lambda>t. ebind (py_get t ''metadata'' JNull) (\<lambda>m. py_get m k (JStr ''missing'')))"

section \<open>Properties\<close>

subsection \<open>The session and fetch\_issue\<close>

lemma keyset_add [simp]: "keyset (py_set_add seen k) = insert (py_key k) (keyset seen)"
  by (auto simp: keyset_def py_set_add_def)

lemma detail_event_mono: "S \<subseteq> S' \<Longrightarrow> detail_event S' e \<Longrightarrow> detail_event S e"
  by (cases e) auto

lemma same_files_refl [simp]: "same_files w w"
  by (simp add: same_files_def)

lemma same_files_trans: "same_files w w1 \<Longrightarrow> same_files w1 w2 \<Longrightarrow> same_files w w2"
  by (simp add: same_files_def)

declare session_send.simps [simp del]

lemma session_send_0:
  "session_send 0 tried lib ep req w =
     (case ep (remote w) of
        (r, s) \<Rightarrow>
          (case r of
             ConnFail \<Rightarrow> (Inl ConnectionError, log req (w\<lparr>remote := s\<rparr>))
           | Response status ra body \<Rightarrow>
               if is_retry 0 status ra then (Inl RetryError, log req (w\<lparr>remote := s\<rparr>))
               else (Inr (status, ra, body), log req (w\<lparr>remote := s\<rparr>))))"
  by (subst session_send.simps) (simp add: Let_def split: prod.splits http.splits)

lemma session_send_Suc:
  "session_send (Suc left) tried lib ep req w =
     (case ep (remote w) of
        (r, s) \<Rightarrow>
          (case r of
             ConnFail \<Rightarrow>
               (case adapter_wait lib (Suc tried) None of
                  Inl e \<Rightarrow> (Inl e, log req (w\<lparr>remote := s\<rparr>))
                | Inr t \<Rightarrow>
                    session_send left (Suc tried) lib ep req
                      (log (Backoff t) (log req (w\<lparr>remote := s\<rparr>))))
           | Response status ra body \<Rightarrow>
               if is_retry (Suc left) status ra then
                 (case adapter_wait lib (Suc tried) ra of
                    Inl e \<Rightarrow> (Inl e, log req (w\<lparr>remote := s\<rparr>))
                  | Inr t \<Rightarrow>
                      session_send left (Suc tried) lib ep req
                        (log (Backoff t) (log req (w\<lparr>remote := s\<rparr>))))
               else (Inr (status, ra, body), log req (w\<lparr>remote := s\<rparr>))))"
  by (subst session_send.simps) (simp add: Let_def split: prod.splits http.splits)

lemma session_send_frame:
  "session_send left tried lib ep req w = (r, w') \<Longrightarrow> \<not> is_backoff req \<Longrightarrow>
     same_files w w'
     \<and> (\<exists>es. events w' = events w @ req # es \<and> (\<forall>e\<in>set es. e = req \<or> is_backoff e)
             \<and> requests_of req (req # es) \<le> Suc left)"
proof (induction left arbitrary: tried w r w')
  case 0
  obtain h s where hs: "ep (remote w) = (h, s)" by (cases "ep (remote w)") auto
  from 0(1) hs have "w' = log req (w\<lparr>remote := s\<rparr>)"
    by (auto simp: session_send_0 split: http.splits if_splits)
  then show ?case
    by (simp add: same_files_def log_def requests_of_def)
next
  case (Suc left)
  obtain h s where hs: "ep (remote w) = (h, s)" by (cases "ep (remote w)") auto
  let ?w1 = "log req (w\<lparr>remote := s\<rparr>)"
  have w1: "same_files w ?w1" "events ?w1 = events w @ [req]"
    by (simp_all add: same_files_def log_def)
  show ?case
  proof (cases "\<exists>t. session_send left (Suc tried) lib ep req (log (Backoff t) ?w1) = (r, w')")
    case True
    then obtain t where
      rec: "session_send left (Suc tried) lib ep req (log (Backoff t) ?w1) = (r, w')"
      by blast
    from Suc.IH[OF rec Suc.prems(2)] obtain es where
      es: "same_files (log (Backoff t) ?w1) w'"
          "events w' = events (log (Backoff t) ?w1) @ req # es"
          "\<forall>e\<in>set es. e = req \<or> is_backoff e"
          "requests_of req (req # es) \<le> Suc left"
      by blast
    have "events w' = events w @ req # (Backoff t # req # es)"
      using es(2) by (simp add: log_def)
    moreover have "\<forall>e\<in>set (Backoff t # req # es). e = req \<or> is_backoff e"
      using es(3) by simp
    moreover have "requests_of req (req # Backoff t # req # es) \<le> Suc (Suc left)"
      using es(4) Suc.prems(2) by (auto simp: requests_of_def)
    moreover have "same_files w w'"
      using es(1) by (simp add: same_files_def log_def)
    ultimately show ?thesis by blast
  next
    case False
    with Suc.prems(1) hs have "w' = ?w1"
      by (auto simp: session_send_Suc split: http.splits if_splits sum.splits)
    then show ?thesis
      by (simp add: same_files_def log_def requests_of_def)
  qed
qed

lemma session_send_response:
  "session_send left tried lib ep req w = (Inr (status, ra, body), w') \<Longrightarrow>
     status \<notin> set status_forcelist
     \<and> (\<exists>s. ep s = (Response status ra body, remote w'))"
proof (induction left arbitrary: tried w)
  case 0
  obtain h s where hs: "ep (remote w) = (h, s)" by (cases "ep (remote w)") auto
  from 0 hs have "h = Response status ra body \<and> status \<notin> set status_forcelist \<and> remote w' = s"
    by (auto simp: session_send_0 is_retry_def log_def split: http.splits if_splits)
  with hs show ?case by metis
next
  case (Suc left)
  obtain h s where hs: "ep (remote w) = (h, s)" by (cases "ep (remote w)") auto
  let ?w1 = "log req (w\<lparr>remote := s\<rparr>)"
  show ?case
  proof (cases "\<exists>t. session_send left (Suc tried) lib ep req (log (Backoff t) ?w1)
                      = (Inr (status, ra, body), w')")
    case True
    with Suc.IH show ?thesis by blast
  next
    case False
    with Suc.prems hs have "h = Response status ra body \<and> status \<notin> set status_forcelist \<and> remote w' = s"
      by (auto simp: session_send_Suc is_retry_def log_def split: http.splits if_splits sum.splits)
    with hs show ?thesis by metis
  qed
qed

lemma session_get_frame:
  "session_get lib ep req w = (r, w') \<Longrightarrow> \<not> is_backoff req \<Longrightarrow>
     same_files w w'
     \<and> (\<exists>es. events w' = events w @ req # es \<and> (\<forall>e\<in>set es. e = req \<or> is_backoff e)
             \<and> requests_of req (req # es) \<le> 6)"
  using session_send_frame[of RETRY_TOTAL 0 lib ep req w r w']
  by (simp add: session_get_def RETRY_TOTAL_def)

lemma session_get_response:
  "session_get lib ep req w = (Inr (status, ra, body), w') \<Longrightarrow>
     status \<notin> set status_forcelist \<and> (\<exists>s. ep s = (Response status ra body, remote w'))"
  unfolding session_get_def by (rule session_send_response)


text \<open>The recursive call of \<^verbatim>\<open>fetch_issue\<close> is never made.\<close>

lemma fetch_issue_unfold:
  "fetch_issue (Suc frames) lib ep k w =
     (case session_get lib (\<lambda>s. ep s k) (DetailReq k) w of
        (Inl e, w1) \<Rightarrow> (Inl e, w1, 1)
      | (Inr (status, ra, body), w1) \<Rightarrow>
          if 400 \<le> status \<and> status < 600 then (Inl HTTPError, w1, 1)
          else (case body of None \<Rightarrow> (Inl ValueError, w1, 1) | Some j \<Rightarrow> (Inr j, w1, 1)))"
proof -
  obtain r w1 where g: "session_get lib (\<lambda>s. ep s k) (DetailReq k) w = (r, w1)"
    by (cases "session_get lib (\<lambda>s. ep s k) (DetailReq k) w") auto
  show ?thesis
  proof (cases r)
    case (Inl e)
    with g show ?thesis by simp
  next
    case (Inr x)
    obtain status ra body where x: "x = (status, ra, body)" by (cases x) auto
    from session_get_response[of lib _ _ w status ra body w1] g Inr x
    have "status \<noteq> 429" by (auto simp: status_forcelist_def)
    with g Inr x show ?thesis by simp
  qed
qed

lemma fetch_issue_frame:
  "fetch_issue n lib ep k w = (r, w', d) \<Longrightarrow>
     same_files w w' \<and> d \<le> 1
     \<and> (\<exists>es. events w' = events w @ es \<and> (\<forall>e\<in>set es. e = DetailReq k \<or> is_backoff e)
             \<and> requests_of (DetailReq k) es \<le> 6)"
proof (cases n)
  case 0
  assume "fetch_issue n lib ep k w = (r, w', d)"
  with 0 show ?thesis by (simp add: requests_of_def)
next
  case (Suc frames)
  assume a: "fetch_issue n lib ep k w = (r, w', d)"
  obtain r1 w1 where g: "session_get lib (\<lambda>s. ep s k) (DetailReq k) w = (r1, w1)"
    by (cases "session_get lib (\<lambda>s. ep s k) (DetailReq k) w") auto
  from a Suc have "fetch_issue (Suc frames) lib ep k w = (r, w', d)"
    by simp
  from this[unfolded fetch_issue_unfold] g have "w' = w1 \<and> d = 1"
    by (auto split: sum.splits if_splits option.splits)
  with session_get_frame[OF g] show ?thesis by auto
qed


subsection \<open>The item loop\<close>

lemma process_items_frame:
  "process_items f lib srv its (seen, rb, tb, bar) w = (res, w') \<Longrightarrow>
     same_files w w' \<and> (\<exists>es. events w' = events w @ es \<and> (\<forall>e\<in>set es. detail_event (keyset seen) e))"
proof (induction its arbitrary: seen rb tb bar w)
  case Nil
  then show ?case by simp
next
  case (Cons it its)
  show ?case
  proof (cases "\<exists>key. py_get it ''key'' JNull = Inr key \<and> py_in key seen = Inr False")
    case False
    have "w' = w \<or> (\<exists>bar'. process_items f lib srv its (seen, rb, tb, bar') w = (res, w'))"
      using Cons.prems False by (auto split: sum.splits bool.splits)
    then show ?thesis
    proof
      assume "w' = w"
      then show ?thesis by simp
    next
      assume "\<exists>bar'. process_items f lib srv its (seen, rb, tb, bar') w = (res, w')"
      then obtain bar' where "process_items f lib srv its (seen, rb, tb, bar') w = (res, w')"
        by blast
      from Cons.IH[OF this] show ?thesis .
    qed
  next
    case True
    then obtain key where key: "py_get it ''key'' JNull = Inr key" "py_in key seen = Inr False"
      by blast
    then have notin: "py_key key \<notin> keyset seen"
      by (auto simp: py_in_def keyset_def split: if_splits)
    obtain r1 w1 d where f: "fetch_issue f lib (srv_issue srv) key w = (r1, w1, d)"
      by (cases "fetch_issue f lib (srv_issue srv) key w") auto
    from fetch_issue_frame[OF f] obtain es1 where
      fr: "same_files w w1" "events w1 = events w @ es1" "\<forall>e\<in>set es1. e = DetailReq key \<or> is_backoff e"
      by blast
    have d1: "\<forall>e\<in>set es1. detail_event (keyset seen) e"
    proof
      fix e assume "e \<in> set es1"
      with fr(3) have "e = DetailReq key \<or> is_backoff e" by blast
      with notin show "detail_event (keyset seen) e" by (cases e) auto
    qed
    have "w' = w1 \<or> (\<exists>seen2 rb2 tb2 bar2. keyset seen \<subseteq> keyset seen2
              \<and> process_items f lib srv its (seen2, rb2, tb2, bar2) w1 = (res, w'))"
    proof (cases r1)
      case (Inl e)
      with Cons.prems key f have "process_items f lib srv its (seen, rb, tb, bar) w1 = (res, w')"
        by simp
      then show ?thesis by blast
    next
      case (Inr doc)
      show ?thesis
      proof (cases "transform_issue_for_llm (py_repr lib) doc")
        case (Inl e)
        with Inr Cons.prems key f show ?thesis by simp
      next
        case tr: (Inr t)
        show ?thesis
        proof (cases "bar_update lib bar (JInt 1)")
          case (Inl e)
          with tr Inr Cons.prems key f show ?thesis by simp
        next
          case (Inr bar')
          with tr \<open>r1 = Inr doc\<close> Cons.prems key f
          have "process_items f lib srv its (py_set_add seen key, rb @ [doc], tb @ [t], bar') w1 = (res, w')"
            by simp
          moreover have "keyset seen \<subseteq> keyset (py_set_add seen key)" by auto
          ultimately show ?thesis by blast
        qed
      qed
    qed
    then show ?thesis
    proof
      assume "w' = w1"
      with fr d1 show ?thesis by auto
    next
      assume "\<exists>seen2 rb2 tb2 bar2. keyset seen \<subseteq> keyset seen2
              \<and> process_items f lib srv its (seen2, rb2, tb2, bar2) w1 = (res, w')"
      then obtain seen2 rb2 tb2 bar2 where sub: "keyset seen \<subseteq> keyset seen2"
        and rec: "process_items f lib srv its (seen2, rb2, tb2, bar2) w1 = (res, w')"
        by blast
      from Cons.IH[OF rec] obtain es2 where
        es2: "same_files w1 w'" "events w' = events w1 @ es2" "\<forall>e\<in>set es2. detail_event (keyset seen2) e"
        by blast
      from es2(3) sub have "\<forall>e\<in>set es2. detail_event (keyset seen) e"
        by (blast intro: detail_event_mono)
      with d1 have "\<forall>e\<in>set (es1 @ es2). detail_event (keyset seen) e" by auto
      moreover have "events w' = events w @ (es1 @ es2)" using fr(2) es2(2) by simp
      moreover have "same_files w w'" using fr(1) es2(1) by (rule same_files_trans)
      ultimately show ?thesis by blast
    qed
  qed
qed

lemma process_items_step:
  assumes "process_items f lib srv (it # its) (seen, rb, tb, bar) w = (Inr out, w')"
  obtains
    (skip) key bar' where "py_get it ''key'' JNull = Inr key" "py_in key seen = Inr True"
      "process_items f lib srv its (seen, rb, tb, bar') w = (Inr out, w')"
  | (failed) key e w1 d where "py_get it ''key'' JNull = Inr key" "py_in key seen = Inr False"
      "fetch_issue f lib (srv_issue srv) key w = (Inl e, w1, d)"
      "process_items f lib srv its (seen, rb, tb, bar) w1 = (Inr out, w')"
  | (fetched) key doc w1 d t bar' where "py_get it ''key'' JNull = Inr key" "py_in key seen = Inr False"
      "fetch_issue f lib (srv_issue srv) key w = (Inr doc, w1, d)"
      "transform_issue_for_llm (py_repr lib) doc = Inr t"
      "process_items f lib srv its (py_set_add seen key, rb @ [doc], tb @ [t], bar') w1 = (Inr out, w')"
proof -
  from assms obtain key where key: "py_get it ''key'' JNull = Inr key"
    by (auto split: sum.splits)
  from assms key obtain b where b: "py_in key seen = Inr b"
    by (auto split: sum.splits)
  show thesis
  proof (cases b)
    case True
    with assms key b obtain bar' where
      "process_items f lib srv its (seen, rb, tb, bar') w = (Inr out, w')"
      by (auto split: sum.splits)
    with key b True show thesis by (intro skip) auto
  next
    case False
    obtain r1 w1 d where f: "fetch_issue f lib (srv_issue srv) key w = (r1, w1, d)"
      by (cases "fetch_issue f lib (srv_issue srv) key w") auto
    show thesis
    proof (cases r1)
      case (Inl e)
      with assms key b False f have "process_items f lib srv its (seen, rb, tb, bar) w1 = (Inr out, w')"
        by simp
      with key b False f Inl show thesis by (intro failed) auto
    next
      case (Inr doc)
      with assms key b False f obtain t where t: "transform_issue_for_llm (py_repr lib) doc = Inr t"
        by (cases "transform_issue_for_llm (py_repr lib) doc") auto
      with assms key b False f Inr obtain bar' where
        "process_items f lib srv its (py_set_add seen key, rb @ [doc], tb @ [t], bar') w1 = (Inr out, w')"
        by (auto split: sum.splits)
      with key b False f Inr t show thesis by (intro fetched) auto
    qed
  qed
qed

lemma process_items_result:
  "process_items f lib srv its (seen, rb, tb, bar) w = (Inr (seen', rb', tb', bar'), w') \<Longrightarrow>
     \<exists>R T. rb' = rb @ R \<and> tb' = tb @ T
         \<and> list_all2 (\<lambda>r t. transform_issue_for_llm (py_repr lib) r = Inr t) R T
         \<and> keyset seen \<subseteq> keyset seen'"
proof (induction its arbitrary: seen rb tb bar w)
  case Nil
  then show ?case by simp
next
  case (Cons it its)
  from Cons.prems show ?case
  proof (cases rule: process_items_step)
    case (skip key b2)
    from Cons.IH[OF skip(3)] show ?thesis .
  next
    case (failed key e w1 d)
    from Cons.IH[OF failed(4)] show ?thesis .
  next
    case (fetched key doc w1 d t b2)
    from Cons.IH[OF fetched(5)] obtain R T where
      "rb' = (rb @ [doc]) @ R" "tb' = (tb @ [t]) @ T"
      "list_all2 (\<lambda>r t. transform_issue_for_llm (py_repr lib) r = Inr t) R T"
      "keyset (py_set_add seen key) \<subseteq> keyset seen'"
      by blast
    with fetched(4) have "rb' = rb @ (doc # R) \<and> tb' = tb @ (t # T)
       \<and> list_all2 (\<lambda>r t. transform_issue_for_llm (py_repr lib) r = Inr t) (doc # R) (t # T)
       \<and> keyset seen \<subseteq> keyset seen'"
      by auto
    then show ?thesis by blast
  qed
qed


subsection \<open>One pass of the loop\<close>

lemma py_add_int_cases:
  "py_add_int v n = Inl e \<Longrightarrow> e = TypeError"
  "py_add_int v n = Inr x \<Longrightarrow> \<exists>a. x = JInt a"
  by (cases v; auto)+

lemma py_get_obj: "py_get (JObj kvs) k d = Inr (case map_of kvs k of None \<Rightarrow> d | Some v \<Rightarrow> v)"
  by (simp add: py_get_def)

lemma py_get_Inr_obj: "py_get d k dflt = Inr v \<Longrightarrow> \<exists>kvs. d = JObj kvs"
  by (cases d) (auto simp: py_get_def)

lemma py_int_ge_err: "py_int_ge a t = Inl e \<Longrightarrow> e = TypeError"
  by (cases t) auto

lemma write_lines_takeWhile:
  "write_lines enc rs = (if list_all enc rs then None else Some UnicodeEncodeError, takeWhile enc rs)"
  by (induction rs) auto

lemma save_state_simps:
  "remote (save_state st w) = remote w"
  "raw_out (save_state st w) = raw_out w"
  "transformed_out (save_state st w) = transformed_out w"
  "state_file (save_state st w) = Some st"
  "events (save_state st w) = events w @ [SaveState st]"
  by (simp_all add: save_state_def)

lemma write_batches_effect:
  assumes "write_batches lib rb tb w = (e, w')"
  shows "remote w' = remote w" "state_file w' = state_file w"
    "\<exists>R T es. the_lines (raw_out w') = the_lines (raw_out w) @ R
        \<and> the_lines (transformed_out w') = the_lines (transformed_out w) @ T
        \<and> R = take (length R) rb \<and> T = take (length T) tb
        \<and> (T \<noteq> [] \<longrightarrow> R = rb)
        \<and> (e = None \<longrightarrow> R = rb \<and> (rb \<noteq> [] \<longrightarrow> T = tb) \<and> (rb = [] \<longrightarrow> T = []))
        \<and> events w' = events w @ es \<and> (\<forall>x\<in>set es. is_append x)"
    "e = None \<or> e = Some UnicodeEncodeError"
proof -
  have tw: "\<And>enc xs. takeWhile enc xs = take (length (takeWhile enc xs)) xs"
    by (metis takeWhile_eq_take)
  have twa: "\<And>enc xs. list_all enc xs \<Longrightarrow> takeWhile enc xs = xs"
    by (simp add: list_all_iff)
  show "remote w' = remote w" "state_file w' = state_file w" "e = None \<or> e = Some UnicodeEncodeError"
    using assms
    by (auto simp: write_batches_def write_jsonl_def write_lines_takeWhile log_def Let_def
             split: if_splits)
  show "\<exists>R T es. the_lines (raw_out w') = the_lines (raw_out w) @ R
        \<and> the_lines (transformed_out w') = the_lines (transformed_out w) @ T
        \<and> R = take (length R) rb \<and> T = take (length T) tb
        \<and> (T \<noteq> [] \<longrightarrow> R = rb)
        \<and> (e = None \<longrightarrow> R = rb \<and> (rb \<noteq> [] \<longrightarrow> T = tb) \<and> (rb = [] \<longrightarrow> T = []))
        \<and> events w' = events w @ es \<and> (\<forall>x\<in>set es. is_append x)"
  proof (cases "rb = []")
    case True
    with assms have "w' = w" "e = None" by (simp_all add: write_batches_def)
    then show ?thesis using True
      by (intro exI[of _ "[]"]) simp
  next
    case False
    show ?thesis
    proof (cases "list_all (encodable lib) rb")
      case no: False
      with assms False have
        "w' = log (AppendRaw (takeWhile (encodable lib) rb))
                (w\<lparr>raw_out := Some (the_lines (raw_out w) @ takeWhile (encodable lib) rb)\<rparr>)"
        "e = Some UnicodeEncodeError"
        by (simp_all add: write_batches_def write_jsonl_def write_lines_takeWhile Let_def the_lines_def)
      then show ?thesis using tw[of "encodable lib" rb]
        by - (rule exI[of _ "takeWhile (encodable lib) rb"], rule exI[of _ "[]"],
              rule exI[of _ "[AppendRaw (takeWhile (encodable lib) rb)]"],
              simp add: log_def the_lines_def)
    next
      case yes: True
      with assms False have
        "w' = log (AppendTransformed (takeWhile (encodable lib) tb))
                (log (AppendRaw rb) (w\<lparr>raw_out := Some (the_lines (raw_out w) @ rb)\<rparr>)
                   \<lparr>transformed_out := Some (the_lines (transformed_out w) @ takeWhile (encodable lib) tb)\<rparr>)"
        "e = (if list_all (encodable lib) tb then None else Some UnicodeEncodeError)"
        by (simp_all add: write_batches_def write_jsonl_def write_lines_takeWhile Let_def the_lines_def
                          twa log_def)
      then show ?thesis using tw[of "encodable lib" tb] twa[of "encodable lib" tb] False
        by - (rule exI[of _ rb], rule exI[of _ "takeWhile (encodable lib) tb"],
              rule exI[of _ "[AppendRaw rb, AppendTransformed (takeWhile (encodable lib) tb)]"],
              auto simp: log_def the_lines_def)
    qed
  qed
qed


lemma page_pass_unfold:
  assumes "session_get lib (\<lambda>s. srv_search srv s startAt MAX_RESULTS) (ListReq startAt) w
             = (Inr (status, ra, Some resp), w1)"
    and "status < 400"
    and "py_get resp ''issues'' (JArr []) = Inr issues"
    and "ebind (py_get resp ''total'' (JInt 0)) (\<lambda>tot. ensure_bar lib pbar tot startAt) = Inr bar"
    and "py_truthy issues" "py_iter issues = Inr its"
    and "process_items frames lib srv its (seen, [], [], bar) w1 = (Inr (seen', rb, tb, bar'), w2)"
    and "write_batches lib rb tb w2 = (None, w3)"
  shows "page_pass frames lib srv (startAt, seen, state, pbar) w =
        (case ebind (py_get resp ''startAt'' startAt) (\<lambda>a. py_add_int a (int (length its))) of
           Inl e \<Rightarrow> (Raised e, w3)
         | Inr startAt' \<Rightarrow>
             (case ebind (py_get resp ''total'' startAt')
                     (\<lambda>t. case startAt' of JInt a \<Rightarrow> py_int_ge a t | _ \<Rightarrow> Inl TypeError) of
                Inl e \<Rightarrow> (Raised e,
                   save_state (JObj (py_setitem (py_setitem state ''startAt'' startAt') ''seen_issue_keys'' (JArr seen'))) w3)
              | Inr True \<Rightarrow> (Finished (startAt', Some bar'),
                   save_state (JObj (py_setitem (py_setitem state ''startAt'' startAt') ''seen_issue_keys'' (JArr seen'))) w3)
              | Inr False \<Rightarrow>
                  (Again (startAt', seen', py_setitem (py_setitem state ''startAt'' startAt') ''seen_issue_keys'' (JArr seen'), Some bar'),
                   save_state (JObj (py_setitem (py_setitem state ''startAt'' startAt') ''seen_issue_keys'' (JArr seen'))) w3)))"
proof -
  from assms(2) have "status \<noteq> 429" "\<not> status \<ge> 500" "\<not> 400 \<le> status"
    by auto
  with assms show ?thesis
    unfolding page_pass_def
    by (simp add: Let_def split: option.splits sum.splits prod.splits bool.splits)
qed

lemma page_pass_cases:
  assumes "page_pass frames lib srv (startAt, seen, state, pbar) w = (out, w')"
  obtains
    (early) es where "same_files w w'" "events w' = events w @ ListReq startAt # es"
      "\<forall>e\<in>set es. pass_event (keyset seen) startAt e"
      "out = Again (startAt, seen, state, pbar) \<or> (\<exists>e. out = Raised e) \<or> (\<exists>b. out = Finished (startAt, Some b))"
  | (unwritten) status ra resp w1 bar its seen' rb tb bar' w2 es e where
      "session_get lib (\<lambda>s. srv_search srv s startAt MAX_RESULTS) (ListReq startAt) w
         = (Inr (status, ra, Some resp), w1)"
      "process_items frames lib srv its (seen, [], [], bar) w1 = (Inr (seen', rb, tb, bar'), w2)"
      "same_files w w2" "events w2 = events w @ ListReq startAt # es"
      "\<forall>e\<in>set es. pass_event (keyset seen) startAt e"
      "write_batches lib rb tb w2 = (Some e, w')" "out = Raised e"
  | (raised) status ra resp w1 bar its seen' rb tb bar' w2 es where
      "session_get lib (\<lambda>s. srv_search srv s startAt MAX_RESULTS) (ListReq startAt) w
         = (Inr (status, ra, Some resp), w1)"
      "process_items frames lib srv its (seen, [], [], bar) w1 = (Inr (seen', rb, tb, bar'), w2)"
      "same_files w w2" "events w2 = events w @ ListReq startAt # es"
      "\<forall>e\<in>set es. pass_event (keyset seen) startAt e"
      "write_batches lib rb tb w2 = (None, w')" "out = Raised TypeError"
      "ebind (py_get resp ''startAt'' startAt) (\<lambda>v. py_add_int v (int (length its))) = Inl TypeError"
  | (saved) status ra resp w1 bar its seen' rb tb bar' w2 es w3 a where
      "session_get lib (\<lambda>s. srv_search srv s startAt MAX_RESULTS) (ListReq startAt) w
         = (Inr (status, ra, Some resp), w1)"
      "process_items frames lib srv its (seen, [], [], bar) w1 = (Inr (seen', rb, tb, bar'), w2)"
      "same_files w w2" "events w2 = events w @ ListReq startAt # es"
      "\<forall>e\<in>set es. pass_event (keyset seen) startAt e"
      "write_batches lib rb tb w2 = (None, w3)"
      "ebind (py_get resp ''startAt'' startAt) (\<lambda>v. py_add_int v (int (length its))) = Inr (JInt a)"
      "w' = save_state (JObj (py_setitem (py_setitem state ''startAt'' (JInt a)) ''seen_issue_keys'' (JArr seen'))) w3"
      "out = Again (JInt a, seen', py_setitem (py_setitem state ''startAt'' (JInt a)) ''seen_issue_keys'' (JArr seen'), Some bar')
         \<or> out = Finished (JInt a, Some bar') \<or> out = Raised TypeError"
proof -
  obtain r1 w1 where g: "session_get lib (\<lambda>s. srv_search srv s startAt MAX_RESULTS) (ListReq startAt) w = (r1, w1)"
    by (cases "session_get lib (\<lambda>s. srv_search srv s startAt MAX_RESULTS) (ListReq startAt) w") auto
  from session_get_frame[OF g] obtain es1 where
    w1: "same_files w w1" "events w1 = events w @ ListReq startAt # es1"
        "\<forall>e\<in>set es1. e = ListReq startAt \<or> is_backoff e"
    by auto
  have es1: "\<forall>e\<in>set es1. pass_event (keyset seen) startAt e"
  proof
    fix e assume "e \<in> set es1"
    with w1(3) have "e = ListReq startAt \<or> is_backoff e" by blast
    then show "pass_event (keyset seen) startAt e"
      by (cases e) (auto simp: pass_event_def)
  qed
  have not429: "\<And>status ra body. r1 = Inr (status, ra, body) \<Longrightarrow> status \<noteq> 429"
    using session_get_response[of lib _ _ w _ _ _ w1] g by (auto simp: status_forcelist_def)
  show thesis
  proof (cases "\<exists>status ra resp issues bar its. r1 = Inr (status, ra, Some resp) \<and> status < 400
                  \<and> py_get resp ''issues'' (JArr []) = Inr issues
                  \<and> ebind (py_get resp ''total'' (JInt 0)) (\<lambda>tot. ensure_bar lib pbar tot startAt) = Inr bar
                  \<and> py_truthy issues \<and> py_iter issues = Inr its")
    case False
    have "(w' = w1 \<or> w' = log ServerErrorSleep w1)
        \<and> (out = Again (startAt, seen, state, pbar) \<or> (\<exists>e. out = Raised e) \<or> (\<exists>b. out = Finished (startAt, Some b)))"
      using assms g False not429 unfolding page_pass_def
      by (auto simp: Let_def split: sum.splits option.splits if_splits)
    then have "same_files w w'"
      "\<exists>es. events w' = events w @ ListReq startAt # es \<and> (\<forall>e\<in>set es. pass_event (keyset seen) startAt e)"
      "out = Again (startAt, seen, state, pbar) \<or> (\<exists>e. out = Raised e) \<or> (\<exists>b. out = Finished (startAt, Some b))"
      using w1 es1
      by (auto simp: same_files_def log_def pass_event_def intro: exI[of _ "es1 @ [ServerErrorSleep]"])
    then show thesis using early by blast
  next
    case True
    then obtain status ra resp issues bar its where ok:
      "r1 = Inr (status, ra, Some resp)" "status < 400"
      "py_get resp ''issues'' (JArr []) = Inr issues"
      "ebind (py_get resp ''total'' (JInt 0)) (\<lambda>tot. ensure_bar lib pbar tot startAt) = Inr bar"
      "py_truthy issues" "py_iter issues = Inr its"
      by blast
    note g' = g[unfolded ok(1)]
    from ok(2) have st: "status \<noteq> 429" "\<not> status \<ge> 500" "\<not> 400 \<le> status" by auto
    obtain r2 w2 where pi: "process_items frames lib srv its (seen, [], [], bar) w1 = (r2, w2)"
      by (cases "process_items frames lib srv its (seen, [], [], bar) w1") auto
    from process_items_frame[OF pi] obtain es2 where
      fr: "same_files w1 w2" "events w2 = events w1 @ es2" "\<forall>e\<in>set es2. detail_event (keyset seen) e"
      by blast
    have fr2: "same_files w w2" "events w2 = events w @ ListReq startAt # (es1 @ es2)"
      "\<forall>e\<in>set (es1 @ es2). pass_event (keyset seen) startAt e"
      using w1 fr es1 by (auto simp: same_files_def pass_event_def)
    from py_get_Inr_obj[OF ok(3)] obtain kvs where resp: "resp = JObj kvs" by blast
    show thesis
    proof (cases r2)
      case (Inl e)
      with assms g' st ok pi have "out = Raised e" "w' = w2"
        unfolding page_pass_def by simp_all
      with fr2 show thesis by (intro early[of "es1 @ es2"]) auto
    next
      case (Inr res)
      obtain seen' rb tb bar' where res: "res = (seen', rb, tb, bar')" by (cases res) auto
      note pi' = pi[unfolded Inr res]
      obtain e3 w3 where wb: "write_batches lib rb tb w2 = (e3, w3)"
        by (cases "write_batches lib rb tb w2") auto
      show thesis
      proof (cases e3)
        case (Some e)
        with assms g' st ok pi' wb have "out = Raised e" "w' = w3"
          unfolding page_pass_def by simp_all
        with g' pi' fr2 wb Some show thesis
          by (intro unwritten[of status ra resp w1 its bar seen' rb tb bar' w2 "es1 @ es2" e]) auto
      next
        case None
        note unfold = page_pass_unfold[OF g' ok(2-6) pi' wb[unfolded None], of state]
        let ?add = "ebind (py_get resp ''startAt'' startAt) (\<lambda>v. py_add_int v (int (length its)))"
        show thesis
        proof (cases ?add)
          case (Inl e)
          then have e: "e = TypeError"
            by (auto simp: resp py_get_obj ebind_def dest: py_add_int_cases)
          from Inl assms unfold have "out = Raised e" "w' = w3"
            by simp_all
          with e Inl g' pi' fr2 wb None show thesis
            by (intro raised[of status ra resp w1 its bar seen' rb tb bar' w2 "es1 @ es2"]) auto
        next
          case (Inr x')
          then obtain a where a: "x' = JInt a"
            by (auto simp: resp py_get_obj ebind_def dest: py_add_int_cases)
          let ?st = "py_setitem (py_setitem state ''startAt'' (JInt a)) ''seen_issue_keys'' (JArr seen')"
          have "w' = save_state (JObj ?st) w3
             \<and> (out = Again (JInt a, seen', ?st, Some bar') \<or> out = Finished (JInt a, Some bar') \<or> out = Raised TypeError)"
            using Inr a assms unfold
            by (auto simp: resp py_get_obj ebind_def split: sum.splits bool.splits dest: py_int_ge_err)
          with Inr a g' pi' fr2 wb None show thesis
            by (intro saved[of status ra resp w1 its bar seen' rb tb bar' w2 "es1 @ es2" w3 a]) auto
        qed
      qed
    qed
  qed
qed

subsection \<open>The two logs\<close>

lemma appended_refl: "same_files w w' \<Longrightarrow> appended lib w w'"
  by (simp add: appended_def same_files_def corresponds_def)

lemma appended_imp_part: "appended lib w w' \<Longrightarrow> appended_part lib w w'"
proof -
  assume "appended lib w w'"
  then obtain R T where rt: "the_lines (raw_out w') = the_lines (raw_out w) @ R"
    "the_lines (transformed_out w') = the_lines (transformed_out w) @ T" "corresponds lib R T"
    unfolding appended_def by blast
  from rt(3) have "length T = length R"
    by (auto simp: corresponds_def dest: list_all2_lengthD)
  with rt have "the_lines (raw_out w') = the_lines (raw_out w) @ R
      \<and> the_lines (transformed_out w') = the_lines (transformed_out w) @ T
      \<and> length T \<le> length R \<and> corresponds lib (take (length T) R) T"
    by simp
  then show ?thesis unfolding appended_part_def by blast
qed

lemma appended_trans: "appended lib w w' \<Longrightarrow> appended lib w' w'' \<Longrightarrow> appended lib w w''"
proof -
  assume "appended lib w w'" "appended lib w' w''"
  then obtain R T R' T' where
    "the_lines (raw_out w') = the_lines (raw_out w) @ R"
    "the_lines (transformed_out w') = the_lines (transformed_out w) @ T"
    "corresponds lib R T"
    "the_lines (raw_out w'') = the_lines (raw_out w') @ R'"
    "the_lines (transformed_out w'') = the_lines (transformed_out w') @ T'"
    "corresponds lib R' T'"
    unfolding appended_def by blast
  then have "the_lines (raw_out w'') = the_lines (raw_out w) @ (R @ R')
      \<and> the_lines (transformed_out w'') = the_lines (transformed_out w) @ (T @ T')
      \<and> corresponds lib (R @ R') (T @ T')"
    by (simp add: corresponds_def list_all2_appendI)
  then show ?thesis
    unfolding appended_def by blast
qed

lemma appended_part_trans:
  assumes "appended lib w w'" "appended_part lib w' w''"
  shows "appended_part lib w w''"
proof -
  from assms obtain R T R' T' where rt:
    "the_lines (raw_out w') = the_lines (raw_out w) @ R"
    "the_lines (transformed_out w') = the_lines (transformed_out w) @ T"
    "corresponds lib R T"
    "the_lines (raw_out w'') = the_lines (raw_out w') @ R'"
    "the_lines (transformed_out w'') = the_lines (transformed_out w') @ T'"
    "length T' \<le> length R'" "corresponds lib (take (length T') R') T'"
    unfolding appended_def appended_part_def by blast
  from rt(3) have len: "length T = length R"
    by (auto simp: corresponds_def dest: list_all2_lengthD)
  have "take (length (T @ T')) (R @ R') = R @ take (length T') R'"
    using len by simp
  with rt(3,7) have "corresponds lib (take (length (T @ T')) (R @ R')) (T @ T')"
    by (simp add: corresponds_def list_all2_appendI)
  moreover have "length (T @ T') \<le> length (R @ R')"
    using len rt(6) by simp
  moreover have "the_lines (raw_out w'') = the_lines (raw_out w) @ (R @ R')"
    "the_lines (transformed_out w'') = the_lines (transformed_out w) @ (T @ T')"
    using rt(1,2,4,5) by simp_all
  ultimately show ?thesis
    unfolding appended_part_def by blast
qed

lemma written_appended:
  assumes "process_items frames lib srv its (seen, [], [], bar) w1 = (Inr (seen', rb, tb, bar'), w2)"
    and "same_files w w2"
    and "write_batches lib rb tb w2 = (e, w3)"
    and "raw_out w' = raw_out w3" "transformed_out w' = transformed_out w3"
  shows "appended_part lib w w'" "e = None \<Longrightarrow> appended lib w w'"
proof -
  from process_items_result[OF assms(1)] have c: "corresponds lib rb tb"
    by (auto simp: corresponds_def)
  then have len: "length tb = length rb"
    by (auto simp: corresponds_def dest: list_all2_lengthD)
  from write_batches_effect(3)[OF assms(3)] obtain R T where rt:
    "the_lines (raw_out w3) = the_lines (raw_out w2) @ R"
    "the_lines (transformed_out w3) = the_lines (transformed_out w2) @ T"
    "R = take (length R) rb" "T = take (length T) tb" "T \<noteq> [] \<longrightarrow> R = rb"
    "e = None \<longrightarrow> R = rb \<and> (rb \<noteq> [] \<longrightarrow> T = tb) \<and> (rb = [] \<longrightarrow> T = [])"
    by blast
  have files: "the_lines (raw_out w') = the_lines (raw_out w) @ R"
    "the_lines (transformed_out w') = the_lines (transformed_out w) @ T"
    using rt(1,2) assms(2,4,5) by (simp_all add: same_files_def)
  have part: "length T \<le> length R \<and> corresponds lib (take (length T) R) T"
  proof (cases "T = []")
    case True
    then show ?thesis by (simp add: corresponds_def)
  next
    case False
    with rt(5) have R: "R = rb" by simp
    have "length T = length (take (length T) tb)" by (rule arg_cong[OF rt(4)])
    then have "length T \<le> length tb" by simp
    moreover have "corresponds lib (take (length T) rb) (take (length T) tb)"
      using c unfolding corresponds_def by (rule list_all2_takeI)
    ultimately show ?thesis using R rt(4) len by simp
  qed
  with files show "appended_part lib w w'"
    unfolding appended_part_def by blast
  show "appended lib w w'" if "e = None"
  proof -
    from that rt(6) len have "R = rb \<and> T = tb" by (cases "rb = []") auto
    with files c show ?thesis unfolding appended_def by blast
  qed
qed

lemma page_pass_appended:
  assumes "page_pass frames lib srv vars w = (out, w')"
  shows "appended_part lib w w'" "out \<noteq> Raised UnicodeEncodeError \<Longrightarrow> appended lib w w'"
proof -
  obtain startAt seen state pbar where vars: "vars = (startAt, seen, state, pbar)"
    by (cases vars) auto
  have "appended_part lib w w' \<and> (out \<noteq> Raised UnicodeEncodeError \<longrightarrow> appended lib w w')"
    using assms[unfolded vars]
  proof (cases rule: page_pass_cases)
    case (early es)
    then show ?thesis by (simp add: appended_refl appended_imp_part)
  next
    case (unwritten status ra resp w1 bar its seen' rb tb bar' w2 es e)
    from write_batches_effect(4)[OF unwritten(6)] unwritten(7)
    have "out = Raised UnicodeEncodeError" by simp
    with written_appended(1)[OF unwritten(2,3,6)] show ?thesis by simp
  next
    case (raised status ra resp w1 bar its seen' rb tb bar' w2 es)
    from written_appended(2)[OF raised(2,3,6)] show ?thesis
      by (simp add: appended_imp_part)
  next
    case (saved status ra resp w1 bar its seen' rb tb bar' w2 es w3 a)
    from written_appended(2)[OF saved(2,3,6), of w'] saved(8) show ?thesis
      by (simp add: appended_imp_part save_state_simps)
  qed
  then show "appended_part lib w w'" "out \<noteq> Raised UnicodeEncodeError \<Longrightarrow> appended lib w w'"
    by simp_all
qed

lemma scrape_loop_appended:
  "scrape_loop n frames lib srv vars w = (res, w') \<Longrightarrow>
     appended_part lib w w' \<and> (res \<noteq> Some (Inl UnicodeEncodeError) \<longrightarrow> appended lib w w')"
proof (induction n arbitrary: vars w)
  case 0
  then show ?case by (simp add: appended_refl appended_imp_part)
next
  case (Suc n)
  obtain out w1 where pp: "page_pass frames lib srv vars w = (out, w1)"
    by (cases "page_pass frames lib srv vars w") auto
  note a1 = page_pass_appended[OF pp]
  show ?case
  proof (cases out)
    case (Again vars')
    with Suc.prems pp have run: "scrape_loop n frames lib srv vars' w1 = (res, w')" by simp
    from Again a1(2) have full: "appended lib w w1" by simp
    from Suc.IH[OF run] full show ?thesis
      by (auto intro: appended_part_trans appended_trans)
  next
    case (Finished d)
    with Suc.prems pp a1 show ?thesis by auto
  next
    case (Raised e)
    with Suc.prems pp a1 show ?thesis by auto
  qed
qed

lemma scrape_project_world:
  assumes "scrape_project fuel frames lib srv w = (res, w')"
  shows "(\<exists>e. res = Some (Inl e) \<and> w' = w \<and> load_state (state_file w) = Inl e)
       \<or> (\<exists>startAt seen state r. load_state (state_file w) = Inr (startAt, seen, state)
             \<and> scrape_loop fuel frames lib srv (startAt, seen, state, None) w = (r, w')
             \<and> (res = None \<longleftrightarrow> r = None)
             \<and> (\<forall>e. r = Some (Inl e) \<longrightarrow> res = Some (Inl e))
             \<and> (\<forall>c b. r = Some (Inr (c, b)) \<longrightarrow>
                  res = (case finish_bar lib b of Some e \<Rightarrow> Some (Inl e) | None \<Rightarrow> Some (Inr c))))"
proof (cases "load_state (state_file w)")
  case (Inl e)
  with assms show ?thesis by (simp add: scrape_project_def)
next
  case (Inr vars)
  obtain startAt seen state where vars: "vars = (startAt, seen, state)"
    by (cases vars) auto
  obtain r w1 where run: "scrape_loop fuel frames lib srv (startAt, seen, state, None) w = (r, w1)"
    by (cases "scrape_loop fuel frames lib srv (startAt, seen, state, None) w") auto
  from assms Inr vars run have "w' = w1"
    by (auto simp: scrape_project_def split: option.splits sum.splits)
  moreover from assms Inr vars run have
    "(res = None \<longleftrightarrow> r = None) \<and> (\<forall>e. r = Some (Inl e) \<longrightarrow> res = Some (Inl e))
     \<and> (\<forall>c b. r = Some (Inr (c, b)) \<longrightarrow>
                  res = (case finish_bar lib b of Some e \<Rightarrow> Some (Inl e) | None \<Rightarrow> Some (Inr c)))"
    by (auto simp: scrape_project_def split: option.splits sum.splits)
  ultimately show ?thesis using Inr vars run by auto
qed

text \<open>
  Claim C8, as amended. \<^verbatim>\<open>write_jsonl\<close> writes the records of a batch after the lines already
  in the file, in the order of the batch, one line after the other, and stops at the first
  record whose line cannot be encoded as UTF-8, where it raises; the raw batch of a page is
  written before the transformed one. So, whatever the server answers and however far a run
  of \<^verbatim>\<open>scrape_project\<close> gets, the lines it has appended to the transformed log are, in order,
  \<^verbatim>\<open>transform_issue_for_llm\<close> of the first lines it has appended to the raw log, and both logs
  have received the same number of lines unless the run ends in \<^verbatim>\<open>UnicodeEncodeError\<close>.
\<close>

theorem C8_order:
  assumes "scrape_project fuel frames lib srv w = (res, w')"
  shows "(\<exists>R T. the_lines (raw_out w') = the_lines (raw_out w) @ R
          \<and> the_lines (transformed_out w') = the_lines (transformed_out w) @ T
          \<and> length T \<le> length R
          \<and> list_all2 (\<lambda>r t. transform_issue_for_llm (py_repr lib) r = Inr t) (take (length T) R) T
          \<and> (res \<noteq> Some (Inl UnicodeEncodeError) \<longrightarrow> length T = length R))
       \<and> (\<forall>enc f records. case write_jsonl enc f records of
             (e, f', written) \<Rightarrow>
               f' = Some (the_lines f @ written) \<and> written = takeWhile enc records
               \<and> (e = None \<longleftrightarrow> written = records))"
proof -
  have part: "appended_part lib w w'" and full: "res \<noteq> Some (Inl UnicodeEncodeError) \<longrightarrow> appended lib w w'"
  proof -
    from scrape_project_world[OF assms]
    have "appended_part lib w w' \<and> (res \<noteq> Some (Inl UnicodeEncodeError) \<longrightarrow> appended lib w w')"
    proof
      assume "\<exists>e. res = Some (Inl e) \<and> w' = w \<and> load_state (state_file w) = Inl e"
      then show ?thesis by (auto simp: appended_refl appended_imp_part)
    next
      assume "\<exists>startAt seen state r. load_state (state_file w) = Inr (startAt, seen, state)
             \<and> scrape_loop fuel frames lib srv (startAt, seen, state, None) w = (r, w')
             \<and> (res = None \<longleftrightarrow> r = None)
             \<and> (\<forall>e. r = Some (Inl e) \<longrightarrow> res = Some (Inl e))
             \<and> (\<forall>c b. r = Some (Inr (c, b)) \<longrightarrow>
                  res = (case finish_bar lib b of Some e \<Rightarrow> Some (Inl e) | None \<Rightarrow> Some (Inr c)))"
      then obtain startAt seen state r where
        run: "scrape_loop fuel frames lib srv (startAt, seen, state, None) w = (r, w')"
        and r: "\<forall>e. r = Some (Inl e) \<longrightarrow> res = Some (Inl e)"
        by blast
      from scrape_loop_appended[OF run] r show ?thesis by auto
    qed
    then show "appended_part lib w w'" "res \<noteq> Some (Inl UnicodeEncodeError) \<longrightarrow> appended lib w w'"
      by simp_all
  qed
  from part obtain R T where rt: "the_lines (raw_out w') = the_lines (raw_out w) @ R"
    "the_lines (transformed_out w') = the_lines (transformed_out w) @ T"
    "length T \<le> length R" "corresponds lib (take (length T) R) T"
    unfolding appended_part_def by blast
  have "res \<noteq> Some (Inl UnicodeEncodeError) \<longrightarrow> length T = length R"
  proof
    assume "res \<noteq> Some (Inl UnicodeEncodeError)"
    with full obtain R' T' where rt': "the_lines (raw_out w') = the_lines (raw_out w) @ R'"
      "the_lines (transformed_out w') = the_lines (transformed_out w) @ T'" "corresponds lib R' T'"
      unfolding appended_def by blast
    from rt(1,2) rt'(1,2) have "R' = R" "T' = T" by simp_all
    with rt'(3) show "length T = length R"
      by (auto simp: corresponds_def dest: list_all2_lengthD)
  qed
  with rt have first: "\<exists>R T. the_lines (raw_out w') = the_lines (raw_out w) @ R
          \<and> the_lines (transformed_out w') = the_lines (transformed_out w) @ T
          \<and> length T \<le> length R
          \<and> list_all2 (\<lambda>r t. transform_issue_for_llm (py_repr lib) r = Inr t) (take (length T) R) T
          \<and> (res \<noteq> Some (Inl UnicodeEncodeError) \<longrightarrow> length T = length R)"
    unfolding corresponds_def by blast
  have second: "\<forall>enc f records. case write_jsonl enc f records of
             (e, f', written) \<Rightarrow>
               f' = Some (the_lines f @ written) \<and> written = takeWhile enc records
               \<and> (e = None \<longleftrightarrow> written = records)"
  proof (intro allI)
    fix enc :: "json \<Rightarrow> bool" and f records
    have "takeWhile enc records = records \<longleftrightarrow> list_all enc records"
      by (simp add: list_all_iff takeWhile_eq_all_conv)
    then show "case write_jsonl enc f records of
             (e, f', written) \<Rightarrow>
               f' = Some (the_lines f @ written) \<and> written = takeWhile enc records
               \<and> (e = None \<longleftrightarrow> written = records)"
      by (auto simp: write_jsonl_def write_lines_takeWhile the_lines_def)
  qed
  from first second show ?thesis by (rule conjI)
qed

theorem C8_order_witness:
  "length (the_lines (raw_out (snd (scrape_project 3 1000 quiet_library (paged_server three_issues 2) fresh_world)))) = 3
   \<and> fst (scrape_project 3 1000 quiet_library (paged_server three_issues 2) fresh_world) = Some (Inr (JInt 3))
   \<and> (\<exists>R T. the_lines (raw_out (snd (scrape_project 3 1000 quiet_library (paged_server three_issues 2) fresh_world)))
               = the_lines (raw_out fresh_world) @ R
          \<and> the_lines (transformed_out (snd (scrape_project 3 1000 quiet_library (paged_server three_issues 2) fresh_world)))
               = the_lines (transformed_out fresh_world) @ T
          \<and> list_all2 (\<lambda>r t. transform_issue_for_llm (py_repr quiet_library) r = Inr t) (take (length T) R) T
          \<and> length T = length R)"
proof -
  have l: "length (the_lines (raw_out (snd (scrape_project 3 1000 quiet_library (paged_server three_issues 2) fresh_world)))) = 3"
    by code_simp
  have r: "fst (scrape_project 3 1000 quiet_library (paged_server three_issues 2) fresh_world) = Some (Inr (JInt 3))"
    by code_simp
  have run: "scrape_project 3 1000 quiet_library (paged_server three_issues 2) fresh_world
      = (fst (scrape_project 3 1000 quiet_library (paged_server three_issues 2) fresh_world),
         snd (scrape_project 3 1000 quiet_library (paged_server three_issues 2) fresh_world))"
    by simp
  from C8_order[OF run] r have "\<exists>R T. the_lines (raw_out (snd (scrape_project 3 1000 quiet_library (paged_server three_issues 2) fresh_world)))
               = the_lines (raw_out fresh_world) @ R
          \<and> the_lines (transformed_out (snd (scrape_project 3 1000 quiet_library (paged_server three_issues 2) fresh_world)))
               = the_lines (transformed_out fresh_world) @ T
          \<and> list_all2 (\<lambda>r t. transform_issue_for_llm (py_repr quiet_library) r = Inr t) (take (length T) R) T
          \<and> length T = length R"
    by auto
  with l r show ?thesis by blast
qed

text \<open>
  The claim as it was stated fails when a line cannot be encoded. The first page holds
  \<^verbatim>\<open>A-1\<close> and \<^verbatim>\<open>A-2\<close>; the record of \<^verbatim>\<open>A-1\<close> is written to the raw log, the write of the record of
  \<^verbatim>\<open>A-2\<close> raises, and the run ends with one line in the raw log and none in the transformed
  log.
\<close>

theorem C8_unencodable_counterexample:
  "fst (scrape_project 3 1000 surrogate_library (paged_server three_issues 2) fresh_world)
     = Some (Inl UnicodeEncodeError)
   \<and> raw_out (snd (scrape_project 3 1000 surrogate_library (paged_server three_issues 2) fresh_world))
       = Some [issue_record (JStr ''A-1'')]
   \<and> transformed_out (snd (scrape_project 3 1000 surrogate_library (paged_server three_issues 2) fresh_world))
       = None
   \<and> state_file (snd (scrape_project 3 1000 surrogate_library (paged_server three_issues 2) fresh_world))
       = None"
  by code_simp

subsection \<open>The first request\<close>







subsection \<open>Checkpoints\<close>

lemma saved_states_append: "saved_states (es @ es') = saved_states es @ saved_states es'"
  by (induction es rule: saved_states.induct) auto

lemma saved_states_none: "\<forall>e\<in>set es. \<not> is_save e \<Longrightarrow> saved_states es = []"
  by (induction es rule: saved_states.induct) auto

lemma pass_event_not_save: "pass_event S a e \<Longrightarrow> \<not> is_save e"
  by (cases e) (auto simp: pass_event_def)

lemma is_append_not_save: "is_append e \<Longrightarrow> \<not> is_save e"
  by (cases e) auto

lemma map_of_py_setitem:
  "map_of (py_setitem kvs k v) k' = (if k' = k then Some v else map_of kvs k')"
  by (induction kvs) auto

lemma seen_of_saved:
  "seen_of (JObj (py_setitem kvs ''seen_issue_keys'' (JArr seen))) = keyset seen"
  by (simp add: seen_of_def py_get_def map_of_py_setitem)

lemma cursor_of_saved:
  "cursor_of (JObj (py_setitem (py_setitem kvs ''startAt'' v) ''seen_issue_keys'' x)) = v"
  by (simp add: cursor_of_def py_get_def map_of_py_setitem)

lemma py_add_int_shift:
  "py_add_int v n = Inr (JInt a) \<Longrightarrow> py_add_int v 0 = Inr (JInt (a - n))"
  by (cases v) auto

lemma page_pass_checkpoint:
  assumes "page_pass frames lib srv (startAt, seen, state, pbar) w = (out, w')"
  shows "\<exists>es. events w' = events w @ es \<and>
     ((saved_states es = [] \<and> state_file w' = state_file w
         \<and> (\<forall>v. out = Again v \<longrightarrow> v = (startAt, seen, state, pbar)))
      \<or> (\<exists>a seen' state'. saved_states es = [JObj state'] \<and> state_file w' = Some (JObj state')
            \<and> seen_of (JObj state') = keyset seen'
            \<and> cursor_of (JObj state') = JInt a \<and> keyset seen \<subseteq> keyset seen'
            \<and> (\<forall>v. out = Again v \<longrightarrow> (\<exists>b. v = (JInt a, seen', state', b)))
            \<and> (\<forall>c. offsets_ok srv \<longrightarrow> startAt = JInt c \<longrightarrow> c \<le> a)))"
  using assms
proof (cases rule: page_pass_cases)
  case (early es)
  from early(3) have "saved_states (ListReq startAt # es) = []"
    by (intro saved_states_none) (auto dest: pass_event_not_save)
  with early(1,2,4) show ?thesis by (auto simp: same_files_def)
next
  case (unwritten status ra resp w1 bar its seen' rb tb bar' w2 es e)
  from write_batches_effect(2,3)[OF unwritten(6)] obtain es3 where
    w3: "state_file w' = state_file w2" "events w' = events w2 @ es3" "\<forall>x\<in>set es3. is_append x"
    by blast
  let ?es = "ListReq startAt # es @ es3"
  from unwritten(4) w3 have "events w' = events w @ ?es" by simp
  moreover from unwritten(5) w3(3) have "saved_states ?es = []"
    by (intro saved_states_none) (auto dest: pass_event_not_save is_append_not_save)
  moreover from unwritten(7) have "\<forall>v. out = Again v \<longrightarrow> v = (startAt, seen, state, pbar)"
    by simp
  moreover from unwritten(3) w3(1) have "state_file w' = state_file w"
    by (simp add: same_files_def)
  ultimately show ?thesis by blast
next
  case (raised status ra resp w1 bar its seen' rb tb bar' w2 es)
  from write_batches_effect(2,3)[OF raised(6)] obtain es3 where
    w3: "state_file w' = state_file w2" "events w' = events w2 @ es3" "\<forall>x\<in>set es3. is_append x"
    by blast
  let ?es = "ListReq startAt # es @ es3"
  from raised(4) w3 have "events w' = events w @ ?es" by simp
  moreover from raised(5) w3(3) have "saved_states ?es = []"
    by (intro saved_states_none) (auto dest: pass_event_not_save is_append_not_save)
  moreover from raised(7) have "\<forall>v. out = Again v \<longrightarrow> v = (startAt, seen, state, pbar)"
    by simp
  moreover from raised(3) w3(1) have "state_file w' = state_file w"
    by (simp add: same_files_def)
  ultimately show ?thesis by blast
next
  case (saved status ra resp w1 bar its seen' rb tb bar' w2 es w3 a)
  let ?st = "py_setitem (py_setitem state ''startAt'' (JInt a)) ''seen_issue_keys'' (JArr seen')"
  from write_batches_effect(3)[OF saved(6)] obtain es3 where
    w3: "events w3 = events w2 @ es3" "\<forall>x\<in>set es3. is_append x"
    by blast
  let ?es = "ListReq startAt # es @ es3 @ [SaveState (JObj ?st)]"
  from saved(4,8) w3 have ev: "events w' = events w @ ?es"
    by (simp add: save_state_simps)
  from saved(5) w3(2) have "saved_states (ListReq startAt # es @ es3) = []"
    by (intro saved_states_none) (auto dest: pass_event_not_save is_append_not_save)
  then have ss: "saved_states ?es = [JObj ?st]"
    using saved_states_append[of "ListReq startAt # es @ es3" "[SaveState (JObj ?st)]"] by simp
  have sf: "state_file w' = Some (JObj ?st)"
    using saved(8) by (simp add: save_state_simps)
  from process_items_result[OF saved(2)] have sub: "keyset seen \<subseteq> keyset seen'"
    by blast
  have again: "\<forall>v. out = Again v \<longrightarrow> (\<exists>b. v = (JInt a, seen', ?st, b))"
    using saved(9) by auto
  have off: "\<forall>c. offsets_ok srv \<longrightarrow> startAt = JInt c \<longrightarrow> c \<le> a"
  proof (intro allI impI)
    fix c assume ok: "offsets_ok srv" and c: "startAt = JInt c"
    from saved(7) obtain v where v: "py_get resp ''startAt'' (JInt c) = Inr v"
      "py_add_int v (int (length its)) = Inr (JInt a)"
      by (auto simp: ebind_def c split: sum.splits)
    from session_get_response[OF saved(1)] obtain s0 where
      "srv_search srv s0 (JInt c) MAX_RESULTS = (Response status ra (Some resp), remote w1)"
      unfolding c by blast
    with py_add_int_shift[OF v(2)] ok v(1) have "c \<le> a - int (length its)"
      unfolding offsets_ok_def by blast
    then show "c \<le> a" by simp
  qed
  have so: "seen_of (JObj ?st) = keyset seen'"
    by (rule seen_of_saved)
  have co: "cursor_of (JObj ?st) = JInt a"
    by (rule cursor_of_saved)
  from ss sf so co sub again off
  have "\<exists>a seen' state'. saved_states ?es = [JObj state'] \<and> state_file w' = Some (JObj state')
            \<and> seen_of (JObj state') = keyset seen'
            \<and> cursor_of (JObj state') = JInt a \<and> keyset seen \<subseteq> keyset seen'
            \<and> (\<forall>v. out = Again v \<longrightarrow> (\<exists>b. v = (JInt a, seen', state', b)))
            \<and> (\<forall>c. offsets_ok srv \<longrightarrow> startAt = JInt c \<longrightarrow> c \<le> a)"
    by (intro exI[of _ a] exI[of _ seen'] exI[of _ ?st] conjI)
  with ev show ?thesis by blast
qed

lemma scrape_loop_seen:
  "scrape_loop n frames lib srv (startAt, seen, state, pbar) w = (res, w') \<Longrightarrow>
     \<exists>es. events w' = events w @ es \<and> sorted_wrt (\<subseteq>) (keyset seen # map seen_of (saved_states es))"
proof (induction n arbitrary: startAt seen state pbar w)
  case 0
  then show ?case by simp
next
  case (Suc n)
  obtain out w1 where pp: "page_pass frames lib srv (startAt, seen, state, pbar) w = (out, w1)"
    by (cases "page_pass frames lib srv (startAt, seen, state, pbar) w") auto
  from page_pass_checkpoint[OF pp] obtain es1 where e1: "events w1 = events w @ es1"
    and alt: "(saved_states es1 = [] \<and> (\<forall>v. out = Again v \<longrightarrow> v = (startAt, seen, state, pbar)))
      \<or> (\<exists>a seen' state'. saved_states es1 = [JObj state'] \<and> seen_of (JObj state') = keyset seen'
            \<and> keyset seen \<subseteq> keyset seen'
            \<and> (\<forall>v. out = Again v \<longrightarrow> (\<exists>b. v = (JInt a, seen', state', b))))"
    by blast
  have one: "sorted_wrt (\<subseteq>) (keyset seen # map seen_of (saved_states es1))"
    using alt by auto
  show ?case
  proof (cases out)
    case (Again vars')
    obtain b seen2 state2 pbar2 where v: "vars' = (b, seen2, state2, pbar2)" by (cases vars') auto
    from Suc.prems pp Again v have run: "scrape_loop n frames lib srv (b, seen2, state2, pbar2) w1 = (res, w')"
      by simp
    from Suc.IH[OF run] obtain es2 where e2: "events w' = events w1 @ es2"
      and s2: "sorted_wrt (\<subseteq>) (keyset seen2 # map seen_of (saved_states es2))"
      by blast
    from alt Again v have link: "(saved_states es1 = [] \<and> seen2 = seen)
        \<or> (\<exists>st. saved_states es1 = [st] \<and> seen_of st = keyset seen2 \<and> keyset seen \<subseteq> keyset seen2)"
      by auto
    from link s2 have "sorted_wrt (\<subseteq>) (keyset seen # map seen_of (saved_states (es1 @ es2)))"
      by (auto simp: saved_states_append)
    with e1 e2 show ?thesis by (intro exI[of _ "es1 @ es2"]) simp
  next
    case (Finished d)
    with Suc.prems pp e1 one show ?thesis by auto
  next
    case (Raised e)
    with Suc.prems pp e1 one show ?thesis by auto
  qed
qed

lemma scrape_loop_cursor:
  "offsets_ok srv \<Longrightarrow> scrape_loop n frames lib srv (JInt c, seen, state, pbar) w = (res, w') \<Longrightarrow>
     \<exists>es cs. events w' = events w @ es \<and> map cursor_of (saved_states es) = map JInt cs \<and> sorted (c # cs)"
proof (induction n arbitrary: c seen state pbar w)
  case 0
  then show ?case by simp
next
  case (Suc n)
  obtain out w1 where pp: "page_pass frames lib srv (JInt c, seen, state, pbar) w = (out, w1)"
    by (cases "page_pass frames lib srv (JInt c, seen, state, pbar) w") auto
  from page_pass_checkpoint[OF pp] Suc.prems(1) obtain es1 where e1: "events w1 = events w @ es1"
    and alt: "(saved_states es1 = [] \<and> (\<forall>v. out = Again v \<longrightarrow> v = (JInt c, seen, state, pbar)))
      \<or> (\<exists>a seen' state'. saved_states es1 = [JObj state']
            \<and> cursor_of (JObj state') = JInt a
            \<and> (\<forall>v. out = Again v \<longrightarrow> (\<exists>b. v = (JInt a, seen', state', b)))
            \<and> c \<le> a)"
    by blast
  have one: "\<exists>cs. map cursor_of (saved_states es1) = map JInt cs \<and> sorted (c # cs)"
  proof -
    from alt show ?thesis
    proof
      assume "saved_states es1 = [] \<and> (\<forall>v. out = Again v \<longrightarrow> v = (JInt c, seen, state, pbar))"
      then show ?thesis by (intro exI[of _ "[]"]) simp
    next
      assume "\<exists>a seen' state'. saved_states es1 = [JObj state']
            \<and> cursor_of (JObj state') = JInt a
            \<and> (\<forall>v. out = Again v \<longrightarrow> (\<exists>b. v = (JInt a, seen', state', b)))
            \<and> c \<le> a"
      then obtain a state' where "saved_states es1 = [JObj state']" "cursor_of (JObj state') = JInt a" "c \<le> a"
        by blast
      then show ?thesis by (intro exI[of _ "[a]"]) simp
    qed
  qed
  show ?case
  proof (cases out)
    case (Again vars')
    from alt Again obtain c2 seen2 state2 pbar2 where v: "vars' = (JInt c2, seen2, state2, pbar2)"
      and link: "(saved_states es1 = [] \<and> c2 = c)
                 \<or> (\<exists>st. saved_states es1 = [st] \<and> cursor_of st = JInt c2 \<and> c \<le> c2)"
      by auto
    from Suc.prems pp Again v have run: "scrape_loop n frames lib srv (JInt c2, seen2, state2, pbar2) w1 = (res, w')"
      by simp
    from Suc.IH[OF Suc.prems(1) run] obtain es2 cs2 where e2: "events w' = events w1 @ es2"
      and s2: "map cursor_of (saved_states es2) = map JInt cs2" "sorted (c2 # cs2)"
      by blast
    from link show ?thesis
    proof
      assume "saved_states es1 = [] \<and> c2 = c"
      with e1 e2 s2 show ?thesis
        by (intro exI[of _ "es1 @ es2"] exI[of _ cs2]) (simp add: saved_states_append)
    next
      assume "\<exists>st. saved_states es1 = [st] \<and> cursor_of st = JInt c2 \<and> c \<le> c2"
      with e1 e2 s2 show ?thesis
        by (intro exI[of _ "es1 @ es2"] exI[of _ "c2 # cs2"]) (auto simp: saved_states_append)
    qed
  next
    case (Finished d)
    with Suc.prems pp e1 one show ?thesis by auto
  next
    case (Raised e)
    with Suc.prems pp e1 one show ?thesis by auto
  qed
qed

lemma keyset_simps:
  "keyset [] = {}"
  "keyset (x # xs) = insert (py_key x) (keyset xs)"
  by (simp_all add: keyset_def)

lemma py_set_of_keyset: "py_set_of acc xs = Inr s \<Longrightarrow> keyset s = keyset acc \<union> keyset xs"
proof (induction xs arbitrary: acc)
  case Nil
  then show ?case by (simp add: keyset_simps)
next
  case (Cons x xs)
  from Cons.prems have "py_set_of (py_set_add acc x) xs = Inr s"
    by (simp split: if_splits)
  from Cons.IH[OF this] show ?case
    by (simp add: keyset_simps)
qed

lemma load_state_props:
  assumes "load_state f = Inr (startAt, seen, state)"
  shows "read_state f = JObj state" "seen_of (read_state f) = keyset seen" "cursor_of (read_state f) = startAt"
proof -
  from assms show st: "read_state f = JObj state"
    by (auto simp: load_state_def ebind_def split: json.splits sum.splits)
  from assms st obtain ks xs where
    "py_get (JObj state) ''startAt'' (JInt 0) = Inr startAt"
    "py_get (JObj state) ''seen_issue_keys'' (JArr []) = Inr ks" "py_iter ks = Inr xs" "py_set_of [] xs = Inr seen"
    by (auto simp: load_state_def ebind_def split: sum.splits)
  with st py_set_of_keyset[of "[]" xs seen]
  show "seen_of (read_state f) = keyset seen" "cursor_of (read_state f) = startAt"
    by (simp_all add: seen_of_def cursor_of_def keyset_simps)
qed

lemma sorted_wrt_cursor:
  "map cursor_of xs = map JInt cs \<Longrightarrow> sorted cs \<Longrightarrow>
     sorted_wrt (\<lambda>a b. json_int_le (cursor_of a) (cursor_of b)) xs"
proof -
  assume m: "map cursor_of xs = map JInt cs" and s: "sorted cs"
  have "sorted_wrt (\<lambda>a b. json_int_le (cursor_of a) (cursor_of b)) xs
          = sorted_wrt json_int_le (map cursor_of xs)"
    by (simp add: sorted_wrt_map)
  also have "\<dots> = sorted_wrt (\<lambda>a b. json_int_le (JInt a) (JInt b)) cs"
    by (simp add: m sorted_wrt_map)
  also have "\<dots> = sorted cs"
    by simp
  finally show ?thesis using s by simp
qed

subsection \<open>Checkpoints of a run\<close>

text \<open>
  Claim C7, as amended. The checkpoints of a run are the state it loaded followed by every
  state it saved, in order. Whatever the server answers, the set of seen keys never shrinks
  from one checkpoint to the next. The cursor never decreases provided the loaded \<^verbatim>\<open>startAt\<close>
  is an integer and every search answer that carries a \<^verbatim>\<open>startAt\<close> carries one that is at
  least the offset that was asked for: the new cursor is the \<^verbatim>\<open>startAt\<close> of the answer plus
  the number of items of the page.
\<close>

theorem C7_checkpoints:
  assumes "scrape_project fuel frames lib srv w = (res, w')"
  shows "sorted_wrt (\<lambda>a b. seen_of a \<subseteq> seen_of b) (checkpoints w w')
       \<and> (offsets_ok srv \<and> (\<exists>c. cursor_of (read_state (state_file w)) = JInt c) \<longrightarrow>
            sorted_wrt (\<lambda>a b. json_int_le (cursor_of a) (cursor_of b)) (checkpoints w w'))"
proof (cases "load_state (state_file w)")
  case (Inl e)
  with assms have "w' = w" by (simp add: scrape_project_def)
  then show ?thesis by (simp add: checkpoints_def)
next
  case (Inr vars)
  obtain startAt seen state where vars: "vars = (startAt, seen, state)"
    by (cases vars) auto
  note ld = load_state_props[OF Inr[unfolded vars]]
  obtain r where run: "scrape_loop fuel frames lib srv (startAt, seen, state, None) w = (r, w')"
    using assms Inr vars
    by (cases "scrape_loop fuel frames lib srv (startAt, seen, state, None) w")
       (auto simp: scrape_project_def split: option.splits sum.splits)
  from scrape_loop_seen[OF run] obtain es where es: "events w' = events w @ es"
    and s: "sorted_wrt (\<subseteq>) (keyset seen # map seen_of (saved_states es))"
    by blast
  from es have cp: "checkpoints w w' = read_state (state_file w) # saved_states es"
    by (simp add: checkpoints_def)
  have "sorted_wrt (\<lambda>a b. seen_of a \<subseteq> seen_of b) (checkpoints w w')
          = sorted_wrt (\<subseteq>) (map seen_of (checkpoints w w'))"
    by (simp add: sorted_wrt_map)
  with s cp ld(2) have part1: "sorted_wrt (\<lambda>a b. seen_of a \<subseteq> seen_of b) (checkpoints w w')"
    by simp
  have part2: "sorted_wrt (\<lambda>a b. json_int_le (cursor_of a) (cursor_of b)) (checkpoints w w')"
    if ok: "offsets_ok srv" and c: "cursor_of (read_state (state_file w)) = JInt c" for c
  proof -
    from c ld(3) have "startAt = JInt c" by simp
    with run have "scrape_loop fuel frames lib srv (JInt c, seen, state, None) w = (r, w')" by simp
    from scrape_loop_cursor[OF ok this] obtain es' cs where
      es': "events w' = events w @ es'" and m: "map cursor_of (saved_states es') = map JInt cs"
      and so: "sorted (c # cs)"
      by blast
    from es es' have "es' = es" by simp
    with m cp c have "map cursor_of (checkpoints w w') = map JInt (c # cs)" by simp
    from sorted_wrt_cursor[OF this so] show ?thesis .
  qed
  from part1 part2 show ?thesis by blast
qed

theorem C7_checkpoints_witness:
  "offsets_ok (paged_server three_issues 2)
   \<and> cursor_of (read_state (state_file fresh_world)) = JInt 0
   \<and> map cursor_of (checkpoints fresh_world (snd (scrape_project 3 1000 quiet_library (paged_server three_issues 2) fresh_world)))
       = [JInt 0, JInt 2, JInt 3]
   \<and> sorted_wrt (\<lambda>a b. seen_of a \<subseteq> seen_of b)
        (checkpoints fresh_world (snd (scrape_project 3 1000 quiet_library (paged_server three_issues 2) fresh_world)))
   \<and> sorted_wrt (\<lambda>a b. json_int_le (cursor_of a) (cursor_of b))
        (checkpoints fresh_world (snd (scrape_project 3 1000 quiet_library (paged_server three_issues 2) fresh_world)))"
proof -
  have ok: "offsets_ok (paged_server three_issues 2)"
    unfolding offsets_ok_def
    by (auto simp: paged_server_def search_page_def py_get_def)
  have c: "cursor_of (read_state (state_file fresh_world)) = JInt 0"
    by (simp add: cursor_of_def read_state_def fresh_world_def py_get_def)
  have m: "map cursor_of (checkpoints fresh_world (snd (scrape_project 3 1000 quiet_library (paged_server three_issues 2) fresh_world)))
       = [JInt 0, JInt 2, JInt 3]"
    by code_simp
  have run: "scrape_project 3 1000 quiet_library (paged_server three_issues 2) fresh_world
      = (fst (scrape_project 3 1000 quiet_library (paged_server three_issues 2) fresh_world),
         snd (scrape_project 3 1000 quiet_library (paged_server three_issues 2) fresh_world))"
    by simp
  from C7_checkpoints[OF run] ok c m show ?thesis by blast
qed

text \<open>
  The claim as it was stated fails for the cursor: a server that answers every search with
  \<^verbatim>\<open>startAt = 0\<close> and one item moves a loaded cursor of 3 back to 1.
\<close>

theorem C7_cursor_counterexample:
  "map cursor_of (checkpoints stale_world (snd (scrape_project 1 1000 quiet_library rewinding_server stale_world)))
     = [JInt 3, JInt 1]
   \<and> \<not> sorted_wrt (\<lambda>a b. json_int_le (cursor_of a) (cursor_of b))
         (checkpoints stale_world (snd (scrape_project 1 1000 quiet_library rewinding_server stale_world)))"
  by code_simp

subsection \<open>At most one line for each key\<close>












subsection \<open>At most one line for each key: instances\<close>



subsection \<open>The cursor after a page\<close>



subsection \<open>The cursor after a page: instances\<close>



subsection \<open>A faithful server\<close>














subsection \<open>The number of search requests\<close>





subsection \<open>Rate limiting\<close>











subsection \<open>The call stack of fetch\_issue\<close>




subsection \<open>save\_state on the disk\<close>

lemma json_dumps_example:
  "json_dumps 0 checkpoint_1
     = ''{'' @ NL @ ''  '' @ json_quote ''startAt'' @ '': 1,'' @ NL
       @ ''  '' @ json_quote ''seen_issue_keys'' @ '': ['' @ NL
       @ ''    '' @ json_quote ''A-1'' @ NL
       @ ''  ]'' @ NL @ ''}''"
  by code_simp

lemma foldl_flush:
  "foldl apply_fs_op (Some t) (map Flush ps) = Some (t @ concat ps)"
  by (induction ps arbitrary: t) auto

lemma disk_after_save:
  "disk_after (Suc k) (save_state_ops pieces) old = Some (concat (take k pieces))"
  by (simp add: disk_after_def save_state_ops_def foldl_flush take_map)

text \<open>
  Claim C5, as amended. \<^verbatim>\<open>save_state\<close> overwrites the file in place. Before the file is opened
  it holds the old content; once it is opened it is empty; from then on it holds a prefix of
  the text of the new state; after the last piece it holds exactly that text. A process that
  stops in between leaves a prefix of the new text, which is neither the old state nor, unless
  everything was flushed, the new one.
\<close>

theorem C5_save_in_place:
  assumes "concat pieces = json_dumps 0 state"
  shows "disk_after 0 (save_state_ops pieces) old = old
       \<and> disk_after 1 (save_state_ops pieces) old = Some []
       \<and> (\<forall>k. \<exists>rest. the (disk_after (Suc k) (save_state_ops pieces) old) @ rest = json_dumps 0 state
                    \<and> disk_after (Suc k) (save_state_ops pieces) old \<noteq> None)
       \<and> (\<forall>k. length pieces < k \<longrightarrow>
             disk_after k (save_state_ops pieces) old = Some (json_dumps 0 state))"
proof (intro conjI allI impI)
  show "disk_after 0 (save_state_ops pieces) old = old"
    by (simp add: disk_after_def)
  show "disk_after 1 (save_state_ops pieces) old = Some []"
    using disk_after_save[of 0 pieces old] by simp
next
  fix k
  have "concat (take k pieces) @ concat (drop k pieces) = concat pieces"
    by (metis append_take_drop_id concat_append)
  with assms show "\<exists>rest. the (disk_after (Suc k) (save_state_ops pieces) old) @ rest = json_dumps 0 state
                    \<and> disk_after (Suc k) (save_state_ops pieces) old \<noteq> None"
    by (auto simp: disk_after_save)
next
  fix k :: nat
  assume "length pieces < k"
  then obtain j where k: "k = Suc j" and j: "length pieces \<le> j"
    by (cases k) auto
  with assms show "disk_after k (save_state_ops pieces) old = Some (json_dumps 0 state)"
    by (simp add: disk_after_save)
qed

theorem C5_save_in_place_witness:
  "concat [json_dumps 0 checkpoint_1] = json_dumps 0 checkpoint_1
   \<and> disk_after 0 (save_state_ops [json_dumps 0 checkpoint_1]) (Some (json_dumps 0 checkpoint_0))
       = Some (json_dumps 0 checkpoint_0)
   \<and> disk_after 1 (save_state_ops [json_dumps 0 checkpoint_1]) (Some (json_dumps 0 checkpoint_0)) = Some []
   \<and> disk_after 2 (save_state_ops [json_dumps 0 checkpoint_1]) (Some (json_dumps 0 checkpoint_0))
       = Some (json_dumps 0 checkpoint_1)"
proof -
  have c: "concat [json_dumps 0 checkpoint_1] = json_dumps 0 checkpoint_1"
    by simp
  have l: "length [json_dumps 0 checkpoint_1] < 2"
    by simp
  from C5_save_in_place[OF c, of "Some (json_dumps 0 checkpoint_0)"] l c show ?thesis
    by blast
qed

text \<open>
  The claim as it was stated fails: a process that stops after the file has been opened and
  before the text is flushed leaves an empty file, which is neither the state saved before
  nor the state being saved.
\<close>

theorem C5_truncated_counterexample:
  "disk_after 1 (save_state_ops [json_dumps 0 checkpoint_1]) (Some (json_dumps 0 checkpoint_0)) = Some []
   \<and> Some [] \<noteq> Some (json_dumps 0 checkpoint_0)
   \<and> Some [] \<noteq> Some (json_dumps 0 checkpoint_1)"
  by code_simp

subsection \<open>The transform on a null\<close>

lemma ebind_simps:
  "ebind (Inr x) f = f x"
  "ebind (Inl e) f = Inl e"
  by (simp_all add: ebind_def)

text \<open>
  Claim C6: the code does not do what the claim says. On a record whose \<^verbatim>\<open>status\<close> is \<^verbatim>\<open>null\<close>,
  \<^verbatim>\<open>fields.get("status", {})\<close> is \<^verbatim>\<open>None\<close>, the default being used only for a missing key, and
  \<^verbatim>\<open>None.get("name")\<close> raises \<^verbatim>\<open>AttributeError\<close>. On a record whose \<^verbatim>\<open>priority\<close> is \<^verbatim>\<open>null\<close>, where
  the source writes \<^verbatim>\<open>(fields.get("priority") or {}).get("name")\<close>, the transform returns and the
  priority of the normalized record is \<^verbatim>\<open>None\<close>.
\<close>

theorem C6_null_status:
  "transform_issue_for_llm repr null_status_record = Inl AttributeError
   \<and> metadata_of (transform_issue_for_llm repr null_priority_record) ''priority'' = Inr JNull
   \<and> metadata_of (transform_issue_for_llm repr null_priority_record) ''status'' = Inr JNull"
  by (simp add: transform_issue_for_llm_def null_status_record_def null_priority_record_def
                metadata_of_def py_get_def ebind_simps py_or_def Let_def)

end
